theory Spec2Isabelle
  imports Main "HOL-Library.Word" "HOL-Library.Sublist"
begin

section \<open>bozobackup: the backup routine of backup.go\<close>

text \<open>
  The theory embeds the function \<open>backup\<close> of \<open>backup.go\<close>: the planning pass, the
  free-space guard, the execution pass and the accounting at the label \<open>cleanup\<close>.
  The functions that \<open>backup\<close> calls and that live in other files of the repository
  (\<open>getAllFiles\<close>, \<open>getFileDate\<close>, \<open>getFileStat\<close>, \<open>getFileHash\<close>,
  \<open>copyFileAtomic\<close>, \<open>estimateDBSize\<close>, \<open>getFreeSpace\<close>, \<open>getLastBackupTime\<close>,
  \<open>initDB\<close>, the table \<open>allowedExtensions\<close>) and the operating system are parameters,
  collected in the record \<open>env\<close>: one value of \<open>env\<close> is what the world answers during
  one run. The source tree is read only by the run and the destination tree is changed
  only by the run itself (a successful copy creates its destination file), and the two
  trees are disjoint. The run starts after both calls of \<open>checkDirExists\<close> returned.
  The progress bar, the coloured terminal output and the elapsed time are left out.
\<close>

subsection \<open>Data\<close>

type_synonym path = string
type_synonym int64 = "64 word"
type_synonym uint64 = "64 word"

text \<open>
  A \<open>time.Time\<close> value, as far as \<open>backup\<close> observes it: \<open>t.IsZero()\<close>,
  \<open>t.Unix()\<close> and \<open>t.Format("2006-01")\<close>.
\<close>

record gotime =
  IsZero :: bool
  Unix :: int64
  Format_2006_01 :: string

text \<open>An \<open>os.FileInfo\<close>, as far as \<open>backup\<close> observes it.\<close>

record fileinfo =
  Size :: int64
  ModTime :: gotime

record SkippedFile =
  Path :: path
  Reason :: string

text \<open>The arguments of one call of \<open>insertFileRecord\<close>.\<close>

record FileRecord =
  recSrc :: path
  recDst :: path
  recHash :: string
  recSize :: int64
  recMtime :: int64

text \<open>
  What one call \<open>copyFileAtomic(ctx, file, destFile)\<close> gives the caller: a nil error,
  or an error \<open>err\<close> together with what \<open>ctx.Err()\<close> says right after it
  (\<open>CopyFailed\<close>: nil, \<open>CopyCancelled\<close>: not nil).
\<close>

datatype copy_result = CopyOk | CopyFailed string | CopyCancelled string

text \<open>The calls that leave the process, in the order the run makes them.\<close>

datatype event =
    EvStat path
  | EvGetFileDate path
  | EvMkdirAll path
  | EvGetFileStat path
  | EvGetFileHash path
  | EvLookup string
  | EvCopy path path
  | EvInsert FileRecord

record env =
  allowedExtensions :: "string \<Rightarrow> bool"
  osStat :: "path \<Rightarrow> string + fileinfo"
  getFileDate :: "path \<Rightarrow> gotime"
  getFileStat :: "path \<Rightarrow> int64 \<times> int64"
  getFileHash :: "path \<Rightarrow> string"
  copyFileAtomic :: "path \<Rightarrow> path \<Rightarrow> copy_result"
  estimateDBSize :: "nat \<Rightarrow> int64"
  getFreeSpace :: "path \<Rightarrow> string + uint64"
  initDB :: "path \<Rightarrow> FileRecord list"
  getLastBackupTime :: "FileRecord list \<Rightarrow> string + gotime"
  getAllFiles :: "path \<Rightarrow> path list \<times> string list"
  destFiles :: "path set"
  ctxDone :: "nat \<Rightarrow> bool"

text \<open>
  \<open>osStat\<close> answers \<open>os.Stat\<close> on a source path (\<open>Inl\<close> the error text);
  \<open>destFiles\<close> are the paths of the destination tree on which \<open>os.Stat\<close> succeeds
  when the run starts; \<open>ctxDone i\<close> says whether the context is seen cancelled at the
  head of iteration \<open>i\<close> of the second loop (by the \<open>select\<close> on \<open>ctx.Done()\<close> or by
  the test of \<open>ctx.Err()\<close> that follows it: both jump to \<open>cleanup\<close>).
\<close>

text \<open>The local variables of \<open>backup\<close>, the dedup index, the destination and the calls made.\<close>

record state =
  copied :: nat
  duplicates :: nat
  errors :: nat
  errorList :: "string list"
  copiedFiles :: "(path \<times> path) list"
  duplicateFiles :: "(path \<times> path) list"
  skippedFiles :: "SkippedFile list"
  totalCopiedSize :: int64
  filesToCopy :: "path list"
  db :: "FileRecord list"
  dest :: "path set"
  trace :: "event list"

subsection \<open>Paths and strings\<close>

text \<open>
  \<open>filepath.Ext\<close>: the suffix that starts at the last dot of the last element of the
  path, empty when that element has no dot. The Go loop scans from the end.
\<close>

fun scanExt :: "string \<Rightarrow> string \<Rightarrow> string" where
  "scanExt [] acc = []"
| "scanExt (c # cs) acc =
     (if c = CHR ''/'' then []
      else if c = CHR ''.'' then c # acc
      else scanExt cs (c # acc))"

definition filepath_Ext :: "path \<Rightarrow> string" where
  "filepath_Ext p = scanExt (rev p) []"

text \<open>\<open>strings.ToLower\<close> on the letters A to Z; every other byte is kept.\<close>

definition lowerChar :: "char \<Rightarrow> char" where
  "lowerChar c =
     (if (65::nat) \<le> of_char c \<and> of_char c \<le> (90::nat)
      then char_of (of_char c + (32::nat)) else c)"

definition strings_ToLower :: "string \<Rightarrow> string" where
  "strings_ToLower s = map lowerChar s"

text \<open>
  \<open>filepath.Base\<close>: the last element of the path, after trailing separators are
  removed; \<open>.\<close> for the empty path and \<open>/\<close> for a path of separators only.
\<close>

definition filepath_Base :: "path \<Rightarrow> string" where
  "filepath_Base p =
     (if p = [] then ''.''
      else let q = dropWhile (\<lambda>c. c = CHR ''/'') (rev p)
           in if q = [] then ''/'' else rev (takeWhile (\<lambda>c. c \<noteq> CHR ''/'') q))"

text \<open>
  \<open>filepath.Join\<close> of two elements: empty elements are dropped, the others are put
  together with a separator. (Go cleans the result as well; the paths of a run are
  clean already.)
\<close>

definition filepath_Join :: "path \<Rightarrow> path \<Rightarrow> path" where
  "filepath_Join a b = (if a = [] then b else if b = [] then a else a @ ''/'' @ b)"

definition destMonthDirOf :: "path \<Rightarrow> gotime \<Rightarrow> path" where
  "destMonthDirOf destDir date = filepath_Join destDir (Format_2006_01 date)"

definition destFileOf :: "path \<Rightarrow> gotime \<Rightarrow> path \<Rightarrow> path" where
  "destFileOf destDir date file =
     filepath_Join (destMonthDirOf destDir date) (filepath_Base file)"

subsection \<open>The dedup index\<close>

text \<open>
  Modelled from the spec: \<open>fileAlreadyProcessed\<close> and \<open>insertFileRecord\<close> are not in
  \<open>backup.go\<close>. The spec's DedupIndex is a store keyed by hash with
  \<open>lookup(handle, hash) \<rightarrow> bool\<close> and \<open>insert(handle, record)\<close>; a record is never
  changed or deleted.
\<close>

definition fileAlreadyProcessed :: "FileRecord list \<Rightarrow> string \<Rightarrow> bool" where
  "fileAlreadyProcessed d h = (h \<in> set (map recHash d))"

definition insertFileRecord :: "FileRecord list \<Rightarrow> FileRecord \<Rightarrow> FileRecord list" where
  "insertFileRecord d r = d @ [r]"

subsection \<open>The first loop: planning\<close>

definition minMtimeOf :: "env \<Rightarrow> FileRecord list \<Rightarrow> bool \<Rightarrow> int64" where
  "minMtimeOf e d incremental =
     (if incremental then
        (case getLastBackupTime e d of
           Inl err \<Rightarrow> 0
         | Inr lastBackupTime \<Rightarrow>
             if \<not> IsZero lastBackupTime then Unix lastBackupTime else 0)
      else 0)"

text \<open>
  The test \<open>incremental && minMtime > 0 && info.ModTime().Unix() <= minMtime\<close>, on
  signed 64-bit integers.
\<close>

definition tooOld :: "bool \<Rightarrow> int64 \<Rightarrow> fileinfo \<Rightarrow> bool" where
  "tooOld incremental minMtime info =
     (incremental \<and> 0 < sint minMtime \<and> sint (Unix (ModTime info)) \<le> sint minMtime)"

definition emit :: "event list \<Rightarrow> state \<Rightarrow> state" where
  "emit evs st = st\<lparr>trace := trace st @ evs\<rparr>"

definition skip :: "path \<Rightarrow> string \<Rightarrow> state \<Rightarrow> state" where
  "skip file reason st =
     st\<lparr>skippedFiles := skippedFiles st @ [\<lparr>Path = file, Reason = reason\<rparr>]\<rparr>"

definition plan_step :: "env \<Rightarrow> bool \<Rightarrow> int64 \<Rightarrow> path \<Rightarrow> state \<Rightarrow> path \<Rightarrow> state" where
  "plan_step e incremental minMtime destDir st file =
     (if \<not> allowedExtensions e (strings_ToLower (filepath_Ext file))
      then skip file ''filtered (extension)'' st
      else case osStat e file of
        Inl err \<Rightarrow> skip file (''stat error: '' @ err) (emit [EvStat file] st)
      | Inr info \<Rightarrow>
          if tooOld incremental minMtime info
          then skip file ''old (not newer than last backup)'' (emit [EvStat file] st)
          else let date = getFileDate e file in
            if IsZero date
            then skip file ''no date found'' (emit [EvStat file, EvGetFileDate file] st)
            else let destMonthDir = destMonthDirOf destDir date;
                     destFile = destFileOf destDir date file;
                     st' = emit [EvStat file, EvGetFileDate file,
                                 EvMkdirAll destMonthDir, EvStat destFile] st
                 in if destFile \<in> dest st
                    then skip file ''already present at destination'' st'
                    else st'\<lparr>filesToCopy := filesToCopy st' @ [file],
                             totalCopiedSize := totalCopiedSize st' + Size info\<rparr>)"

fun plan_loop :: "env \<Rightarrow> bool \<Rightarrow> int64 \<Rightarrow> path \<Rightarrow> path list \<Rightarrow> state \<Rightarrow> state" where
  "plan_loop e incremental minMtime destDir [] st = st"
| "plan_loop e incremental minMtime destDir (file # files) st =
     plan_loop e incremental minMtime destDir files
       (plan_step e incremental minMtime destDir st file)"

subsection \<open>The second loop: execution\<close>

datatype ctl = Continue | Break

text \<open>
  Modelled from the spec: \<open>copyFileAtomic\<close> is not in \<open>backup.go\<close>. The spec's
  CopyEngine leaves a complete file at the destination path on success and nothing at
  that path on failure or cancellation.
\<close>

definition copyEffect :: "copy_result \<Rightarrow> path \<Rightarrow> path set \<Rightarrow> path set" where
  "copyEffect r destFile D = (case r of CopyOk \<Rightarrow> insert destFile D | _ \<Rightarrow> D)"

definition copyError :: "path \<Rightarrow> string \<Rightarrow> state \<Rightarrow> state" where
  "copyError file err st =
     st\<lparr>errorList := errorList st @ [file @ '': copy error: '' @ err],
        errors := errors st + 1\<rparr>"

definition exec_step :: "env \<Rightarrow> bool \<Rightarrow> int64 \<Rightarrow> path \<Rightarrow> state \<Rightarrow> path \<Rightarrow> ctl \<times> state" where
  "exec_step e incremental minMtime destDir st file =
     (if \<not> allowedExtensions e (strings_ToLower (filepath_Ext file))
      then (Continue, st)
      else case osStat e file of
        Inl err \<Rightarrow>
          (Continue, (emit [EvStat file] st)
             \<lparr>errorList := errorList st @ [file @ '': stat error: '' @ err]\<rparr>)
      | Inr info \<Rightarrow>
          if tooOld incremental minMtime info
          then (Continue, emit [EvStat file] st)
          else let date = getFileDate e file in
            if IsZero date
            then (Continue, emit [EvStat file, EvGetFileDate file] st)
            else let destMonthDir = destMonthDirOf destDir date;
                     destFile = destFileOf destDir date file;
                     st1 = emit [EvStat file, EvGetFileDate file,
                                 EvMkdirAll destMonthDir, EvStat destFile] st
                 in if destFile \<in> dest st
                    then (Continue, st1)
                    else let (size, mtime) = getFileStat e file;
                             hash = getFileHash e file;
                             st2 = emit [EvGetFileStat file, EvGetFileHash file] st1
                         in if hash = []
                            then (Continue,
                                  st2\<lparr>errorList := errorList st2 @ [file @ '': hash error''],
                                      errors := errors st2 + 1\<rparr>)
                            else let st3 = emit [EvLookup hash] st2 in
                              if fileAlreadyProcessed (db st3) hash
                              then (Continue,
                                    st3\<lparr>duplicates := duplicates st3 + 1,
                                        duplicateFiles := duplicateFiles st3 @ [(file, destFile)]\<rparr>)
                              else let r = copyFileAtomic e file destFile;
                                       st4 = (emit [EvCopy file destFile] st3)
                                               \<lparr>dest := copyEffect r destFile (dest st3)\<rparr>
                                   in case r of
                                        CopyFailed err \<Rightarrow> (Continue, copyError file err st4)
                                      | CopyCancelled err \<Rightarrow> (Break, copyError file err st4)
                                      | CopyOk \<Rightarrow>
                                          let rec = \<lparr>recSrc = file, recDst = destFile,
                                                     recHash = hash, recSize = size,
                                                     recMtime = mtime\<rparr>;
                                              st5 = (emit [EvInsert rec] st4)
                                                      \<lparr>db := insertFileRecord (db st4) rec\<rparr>
                                          in (Continue,
                                              st5\<lparr>copied := copied st5 + 1,
                                                  copiedFiles := copiedFiles st5 @ [(file, destFile)]\<rparr>))"

text \<open>
  How the second loop ends: it ran through all files, it jumped to \<open>cleanup\<close> at the
  head of an iteration, or it left by \<open>break\<close> after a copy that failed with the
  context cancelled.
\<close>

datatype loop_exit = Completed | Interrupted | Broke

fun exec_loop ::
  "env \<Rightarrow> bool \<Rightarrow> int64 \<Rightarrow> path \<Rightarrow> nat \<Rightarrow> path list \<Rightarrow> state \<Rightarrow> loop_exit \<times> state" where
  "exec_loop e incremental minMtime destDir i [] st = (Completed, st)"
| "exec_loop e incremental minMtime destDir i (file # files) st =
     (if ctxDone e i then (Interrupted, st)
      else case exec_step e incremental minMtime destDir st file of
             (Break, st') \<Rightarrow> (Broke, st')
           | (Continue, st') \<Rightarrow>
               exec_loop e incremental minMtime destDir (Suc i) files st')"

subsection \<open>The whole run\<close>

datatype fatal = NoFreeSpaceInfo string | NotEnoughFreeSpace int64 uint64

text \<open>
  A run ends in \<open>os.Exit(1)\<close> (\<open>Fatal\<close>, with the state at that moment) or reaches the
  end of \<open>backup\<close> (\<open>Finished\<close>, with the way the second loop ended).
\<close>

datatype outcome = Fatal fatal state | Finished loop_exit state

definition init_state :: "env \<Rightarrow> path \<Rightarrow> state" where
  "init_state e dbPath =
     \<lparr>copied = 0, duplicates = 0, errors = 0, errorList = [], copiedFiles = [],
      duplicateFiles = [], skippedFiles = [], totalCopiedSize = 0, filesToCopy = [],
      db = initDB e dbPath, dest = destFiles e, trace = []\<rparr>"

definition planned :: "env \<Rightarrow> path \<Rightarrow> path \<Rightarrow> path \<Rightarrow> bool \<Rightarrow> state" where
  "planned e srcDir destDir dbPath incremental =
     plan_loop e incremental (minMtimeOf e (initDB e dbPath) incremental) destDir
       (fst (getAllFiles e srcDir)) (init_state e dbPath)"

definition cleanup :: "string list \<Rightarrow> state \<Rightarrow> state" where
  "cleanup walkErrors st =
     st\<lparr>errorList := errorList st @ map (\<lambda>walkErr. ''walk error: '' @ walkErr) walkErrors\<rparr>"

definition backup :: "env \<Rightarrow> path \<Rightarrow> path \<Rightarrow> path \<Rightarrow> bool \<Rightarrow> outcome" where
  "backup e srcDir destDir dbPath incremental =
     (let minMtime = minMtimeOf e (initDB e dbPath) incremental;
          (files, walkErrors) = getAllFiles e srcDir;
          st1 = planned e srcDir destDir dbPath incremental;
          dbEstimate = estimateDBSize e (length (filesToCopy st1));
          requiredSpace = totalCopiedSize st1 + dbEstimate
      in case getFreeSpace e destDir of
           Inl err \<Rightarrow> Fatal (NoFreeSpaceInfo err) st1
         | Inr free \<Rightarrow>
             if free < requiredSpace
             then Fatal (NotEnoughFreeSpace requiredSpace free) st1
             else let (ex, st2) = exec_loop e incremental minMtime destDir 0 files st1
                  in Finished ex (cleanup walkErrors st2))"

text \<open>The summary that \<open>backup\<close> prints after the report is written.\<close>

definition totalFound :: "env \<Rightarrow> path \<Rightarrow> nat" where
  "totalFound e srcDir = length (fst (getAllFiles e srcDir))"

definition totalCopied :: "state \<Rightarrow> nat" where
  "totalCopied st = length (copiedFiles st)"

definition totalSkipped :: "state \<Rightarrow> nat" where
  "totalSkipped st = length (skippedFiles st)"

definition totalDuplicates :: "state \<Rightarrow> nat" where
  "totalDuplicates st = length (duplicateFiles st)"

definition totalErrors :: "env \<Rightarrow> path \<Rightarrow> state \<Rightarrow> nat" where
  "totalErrors e srcDir st = errors st + length (snd (getAllFiles e srcDir))"

definition totalAccounted :: "env \<Rightarrow> path \<Rightarrow> state \<Rightarrow> nat" where
  "totalAccounted e srcDir st =
     totalCopied st + totalSkipped st + totalDuplicates st + totalErrors e srcDir st"

subsection \<open>Notions for stating the properties\<close>

text \<open>
  What a run did is read from its outcome: the state it ended in and, when it reached
  the end of \<open>backup\<close>, the way the second loop ended.
\<close>

fun finalState :: "outcome \<Rightarrow> state" where
  "finalState (Fatal f st) = st"
| "finalState (Finished ex st) = st"

fun exitOf :: "outcome \<Rightarrow> loop_exit option" where
  "exitOf (Fatal f st) = None"
| "exitOf (Finished ex st) = Some ex"

text \<open>
  \<open>eligible\<close> says that a file passes, in the order of the code, the extension
  filter, \<open>os.Stat\<close>, the incremental test, the date resolution and the test that
  nothing exists at its destination path, the destination holding the paths \<open>D\<close>.
  Both loops make these tests; the first loop puts the eligible files into the planned
  copy-set \<open>filesToCopy\<close>, with the size \<open>sizeOf\<close> that \<open>os.Stat\<close> gave.
\<close>

definition allowed :: "env \<Rightarrow> path \<Rightarrow> bool" where
  "allowed e file = allowedExtensions e (strings_ToLower (filepath_Ext file))"

definition eligible :: "env \<Rightarrow> bool \<Rightarrow> int64 \<Rightarrow> path \<Rightarrow> path set \<Rightarrow> path \<Rightarrow> bool" where
  "eligible e incremental minMtime destDir D file =
     (allowed e file \<and>
      (case osStat e file of
         Inl err \<Rightarrow> False
       | Inr info \<Rightarrow>
           \<not> tooOld incremental minMtime info \<and>
           \<not> IsZero (getFileDate e file) \<and>
           destFileOf destDir (getFileDate e file) file \<notin> D))"

definition sizeOf :: "env \<Rightarrow> path \<Rightarrow> int64" where
  "sizeOf e file = (case osStat e file of Inl err \<Rightarrow> 0 | Inr info \<Rightarrow> Size info)"

text \<open>
  For a file that is not eligible, \<open>skipReason\<close> is the reason that the first loop
  records, \<open>skippedOf\<close> are the skipped entries of a list of files, and \<open>statErrors\<close>
  is the line that the second loop appends to the error list.
\<close>

definition skipReason :: "env \<Rightarrow> bool \<Rightarrow> int64 \<Rightarrow> path \<Rightarrow> string" where
  "skipReason e incremental minMtime file =
     (if \<not> allowed e file then ''filtered (extension)''
      else case osStat e file of
        Inl err \<Rightarrow> ''stat error: '' @ err
      | Inr info \<Rightarrow>
          if tooOld incremental minMtime info then ''old (not newer than last backup)''
          else if IsZero (getFileDate e file) then ''no date found''
          else ''already present at destination'')"

definition skippedOf :: "env \<Rightarrow> bool \<Rightarrow> int64 \<Rightarrow> path \<Rightarrow> path set \<Rightarrow> path list \<Rightarrow> SkippedFile list" where
  "skippedOf e incremental minMtime destDir D files =
     map (\<lambda>file. \<lparr>Path = file, Reason = skipReason e incremental minMtime file\<rparr>)
       (filter (\<lambda>file. \<not> eligible e incremental minMtime destDir D file) files)"

definition statErrors :: "env \<Rightarrow> path \<Rightarrow> string list" where
  "statErrors e file =
     (if allowed e file
      then (case osStat e file of Inl err \<Rightarrow> [file @ '': stat error: '' @ err] | Inr info \<Rightarrow> [])
      else [])"

text \<open>
  \<open>checkEvents\<close> are the calls that the tests of one iteration make, \<open>hashEvents\<close>
  the calls of an iteration up to the hash, and \<open>recordOf\<close> is the record that the
  second loop inserts for a file it has copied.
\<close>

definition checkEvents :: "env \<Rightarrow> bool \<Rightarrow> int64 \<Rightarrow> path \<Rightarrow> path \<Rightarrow> event list" where
  "checkEvents e incremental minMtime destDir file =
     (if \<not> allowed e file then []
      else case osStat e file of
        Inl err \<Rightarrow> [EvStat file]
      | Inr info \<Rightarrow>
          if tooOld incremental minMtime info then [EvStat file]
          else if IsZero (getFileDate e file) then [EvStat file, EvGetFileDate file]
          else [EvStat file, EvGetFileDate file,
                EvMkdirAll (destMonthDirOf destDir (getFileDate e file)),
                EvStat (destFileOf destDir (getFileDate e file) file)])"

definition hashEvents :: "env \<Rightarrow> bool \<Rightarrow> int64 \<Rightarrow> path \<Rightarrow> path \<Rightarrow> event list" where
  "hashEvents e incremental minMtime destDir file =
     checkEvents e incremental minMtime destDir file @ [EvGetFileStat file, EvGetFileHash file]"

definition recordOf :: "env \<Rightarrow> path \<Rightarrow> path \<Rightarrow> FileRecord" where
  "recordOf e destDir file =
     \<lparr>recSrc = file, recDst = destFileOf destDir (getFileDate e file) file,
      recHash = getFileHash e file, recSize = fst (getFileStat e file),
      recMtime = snd (getFileStat e file)\<rparr>"

text \<open>
  Read from a trace: the files hashed, the files for which a copy was attempted, the
  records inserted, and what the copy calls reported.
\<close>

definition hashCalls :: "event list \<Rightarrow> path list" where
  "hashCalls tr = concat (map (\<lambda>ev. case ev of EvGetFileHash f \<Rightarrow> [f] | _ \<Rightarrow> []) tr)"

definition copyCalls :: "event list \<Rightarrow> path list" where
  "copyCalls tr = concat (map (\<lambda>ev. case ev of EvCopy f d \<Rightarrow> [f] | _ \<Rightarrow> []) tr)"

definition insertCalls :: "event list \<Rightarrow> FileRecord list" where
  "insertCalls tr = concat (map (\<lambda>ev. case ev of EvInsert r \<Rightarrow> [r] | _ \<Rightarrow> []) tr)"

definition copyReports :: "env \<Rightarrow> event list \<Rightarrow> copy_result list" where
  "copyReports e tr =
     concat (map (\<lambda>ev. case ev of EvCopy f d \<Rightarrow> [copyFileAtomic e f d] | _ \<Rightarrow> []) tr)"

subsection \<open>Example worlds\<close>

text \<open>
  A world in which every source file is a readable picture of 1000 bytes taken on
  15 June 2023, every copy succeeds, the destination and the dedup index are empty and
  nobody interrupts. The extensions are those that the help text of the command lists.
  The examples below change one answer of this world at a time.
\<close>

definition june15 :: gotime where
  "june15 = \<lparr>IsZero = False, Unix = 1686787200, Format_2006_01 = ''2023-06''\<rparr>"

definition zeroTime :: gotime where
  "zeroTime = \<lparr>IsZero = True, Unix = - 62135596800, Format_2006_01 = ''0001-01''\<rparr>"

definition mediaExtensions :: "string \<Rightarrow> bool" where
  "mediaExtensions x =
     (x \<in> set [''.jpg'', ''.jpeg'', ''.heic'', ''.mp4'', ''.mov'', ''.mkv'', ''.webm'', ''.avi''])"

definition baseEnv :: env where
  "baseEnv =
     \<lparr>allowedExtensions = mediaExtensions,
      osStat = (\<lambda>p. Inr \<lparr>Size = 1000, ModTime = june15\<rparr>),
      getFileDate = (\<lambda>p. june15),
      getFileStat = (\<lambda>p. (1000, 1686787200)),
      getFileHash = (\<lambda>p. ''sha256 of '' @ p),
      copyFileAtomic = (\<lambda>s d. CopyOk),
      estimateDBSize = (\<lambda>n. of_nat (n * 512)),
      getFreeSpace = (\<lambda>p. Inr 1000000),
      initDB = (\<lambda>p. []),
      getLastBackupTime = (\<lambda>d. Inr zeroTime),
      getAllFiles = (\<lambda>p. ([], [])),
      destFiles = {},
      ctxDone = (\<lambda>i. False)\<rparr>"

text \<open>One picture.\<close>

definition oneEnv :: env where
  "oneEnv = baseEnv\<lparr>getAllFiles := (\<lambda>p. ([''/src/IMG_0001.jpg''], []))\<rparr>"

text \<open>Two pictures of the same name and month, in two source directories.\<close>

definition collideEnv :: env where
  "collideEnv =
     baseEnv\<lparr>getAllFiles := (\<lambda>p. ([''/src/a/IMG_0001.jpg'', ''/src/b/IMG_0001.jpg''], []))\<rparr>"

text \<open>One picture, whose copy is cut by the cancellation of the context.\<close>

definition cancelEnv :: env where
  "cancelEnv = oneEnv\<lparr>copyFileAtomic := (\<lambda>s d. CopyCancelled ''context canceled'')\<rparr>"

text \<open>A picture and a text file; the context is cancelled after the first of them.\<close>

definition interruptEnv :: env where
  "interruptEnv =
     baseEnv\<lparr>getAllFiles := (\<lambda>p. ([''/src/IMG_0001.jpg'', ''/src/notes.txt''], [])),
             ctxDone := (\<lambda>i. 1 \<le> i)\<rparr>"

text \<open>One picture that \<open>os.Stat\<close> cannot read.\<close>

definition statErrEnv :: env where
  "statErrEnv = oneEnv\<lparr>osStat := (\<lambda>p. Inl ''permission denied'')\<rparr>"

text \<open>One picture whose content is in the dedup index already, copied from elsewhere.\<close>

definition dupEnv :: env where
  "dupEnv =
     oneEnv\<lparr>initDB := (\<lambda>p. [\<lparr>recSrc = ''/old/IMG_0001.jpg'',
                              recDst = ''/dst/2022-01/IMG_0001.jpg'',
                              recHash = ''sha256 of /src/IMG_0001.jpg'',
                              recSize = 1000, recMtime = 1640995200\<rparr>]),
            destFiles := {''/dst/2022-01/IMG_0001.jpg''}\<rparr>"

text \<open>
  One picture, in an incremental run after a run recorded at the very second of the
  picture's modification time.
\<close>

definition sameSecondEnv :: env where
  "sameSecondEnv = oneEnv\<lparr>getLastBackupTime := (\<lambda>d. Inr june15)\<rparr>"

text \<open>
  One picture whose modification time is the Unix epoch (a file restored without its
  time stamp), in an incremental run after a run recorded at that very second: the
  recorded time is not the zero time of \<open>time.Time\<close>, and its Unix seconds are 0.
\<close>

definition epochTime :: gotime where
  "epochTime = \<lparr>IsZero = False, Unix = 0, Format_2006_01 = ''1970-01''\<rparr>"

definition epochEnv :: env where
  "epochEnv =
     oneEnv\<lparr>getLastBackupTime := (\<lambda>d. Inr epochTime),
            osStat := (\<lambda>p. Inr \<lparr>Size = 1000, ModTime = epochTime\<rparr>),
            getFileStat := (\<lambda>p. (1000, 0))\<rparr>"



subsection \<open>Paths\<close>

text \<open>The path functions on the paths of the examples.\<close>

lemma path_examples:
  "filepath_Ext ''/src/a/IMG_0001.JPG'' = ''.JPG''"
  "filepath_Ext ''/src/IMG_0001.jpg.heic'' = ''.heic''"
  "filepath_Ext ''/src/a.b/README'' = []"
  "strings_ToLower ''.JPG'' = ''.jpg''"
  "filepath_Base ''/src/a/IMG_0001.jpg'' = ''IMG_0001.jpg''"
  "destMonthDirOf ''/dst'' june15 = ''/dst/2023-06''"
  "destFileOf ''/dst'' june15 ''/src/a/IMG_0001.jpg'' = ''/dst/2023-06/IMG_0001.jpg''"
  by code_simp+

subsection \<open>One iteration, branch by branch\<close>

lemma trace_emit: "trace (emit evs st) = trace st @ evs"
  by (simp add: emit_def)

lemma plan_step_not_eligible:
  "\<not> eligible e inc m destDir (dest st) file \<Longrightarrow>
   plan_step e inc m destDir st file =
     st\<lparr>skippedFiles := skippedFiles st @ [\<lparr>Path = file, Reason = skipReason e inc m file\<rparr>],
        trace := trace st @ checkEvents e inc m destDir file\<rparr>"
  by (cases "osStat e file")
     (auto simp: eligible_def allowed_def plan_step_def skip_def emit_def checkEvents_def
        skipReason_def Let_def)

lemma plan_step_eligible:
  "eligible e inc m destDir (dest st) file \<Longrightarrow>
   plan_step e inc m destDir st file =
     st\<lparr>filesToCopy := filesToCopy st @ [file],
        totalCopiedSize := totalCopiedSize st + sizeOf e file,
        trace := trace st @ checkEvents e inc m destDir file\<rparr>"
  by (cases "osStat e file")
     (auto simp: eligible_def allowed_def plan_step_def skip_def emit_def checkEvents_def
        sizeOf_def Let_def)

lemma exec_step_ext:
  "\<not> allowed e file \<Longrightarrow> exec_step e inc m destDir st file = (Continue, st)"
  by (simp add: exec_step_def allowed_def)

lemma exec_step_stat_err:
  "allowed e file \<Longrightarrow> osStat e file = Inl err \<Longrightarrow>
   exec_step e inc m destDir st file =
     (Continue, (emit [EvStat file] st)\<lparr>errorList := errorList st @ [file @ '': stat error: '' @ err]\<rparr>)"
  by (simp add: exec_step_def allowed_def)

lemma exec_step_old:
  "allowed e file \<Longrightarrow> osStat e file = Inr info \<Longrightarrow> tooOld inc m info \<Longrightarrow>
   exec_step e inc m destDir st file = (Continue, emit [EvStat file] st)"
  by (simp add: exec_step_def allowed_def)

lemma exec_step_no_date:
  "allowed e file \<Longrightarrow> osStat e file = Inr info \<Longrightarrow>
   \<not> tooOld inc m info \<Longrightarrow> IsZero (getFileDate e file) \<Longrightarrow>
   exec_step e inc m destDir st file = (Continue, emit [EvStat file, EvGetFileDate file] st)"
  by (simp add: exec_step_def allowed_def)

lemma exec_step_present:
  "allowed e file \<Longrightarrow> osStat e file = Inr info \<Longrightarrow>
   \<not> tooOld inc m info \<Longrightarrow> \<not> IsZero (getFileDate e file) \<Longrightarrow>
   destFileOf destDir (getFileDate e file) file \<in> dest st \<Longrightarrow>
   exec_step e inc m destDir st file =
     (Continue, emit [EvStat file, EvGetFileDate file,
                      EvMkdirAll (destMonthDirOf destDir (getFileDate e file)),
                      EvStat (destFileOf destDir (getFileDate e file) file)] st)"
  by (simp add: exec_step_def allowed_def Let_def emit_def)

lemma exec_step_not_eligible:
  assumes "\<not> eligible e inc m destDir (dest st) file"
  shows "exec_step e inc m destDir st file =
     (Continue, st\<lparr>errorList := errorList st @ statErrors e file,
                   trace := trace st @ checkEvents e inc m destDir file\<rparr>)"
proof (cases "allowed e file")
  case False
  then show ?thesis
    by (simp add: exec_step_ext statErrors_def checkEvents_def)
next
  case True
  show ?thesis
  proof (cases "osStat e file")
    case (Inl err)
    with True show ?thesis
      by (simp add: exec_step_stat_err statErrors_def checkEvents_def emit_def)
  next
    case (Inr info)
    consider "tooOld inc m info"
      | "\<not> tooOld inc m info" "IsZero (getFileDate e file)"
      | "\<not> tooOld inc m info" "\<not> IsZero (getFileDate e file)"
        "destFileOf destDir (getFileDate e file) file \<in> dest st"
      using assms True Inr by (auto simp: eligible_def)
    then show ?thesis
    proof cases
      case 1
      with True Inr show ?thesis
        by (simp add: exec_step_old statErrors_def checkEvents_def emit_def)
    next
      case 2
      with True Inr show ?thesis
        by (simp add: exec_step_no_date statErrors_def checkEvents_def emit_def)
    next
      case 3
      with True Inr show ?thesis
        by (simp add: exec_step_present statErrors_def checkEvents_def emit_def)
    qed
  qed
qed

lemma eligibleD:
  assumes "eligible e inc m destDir D file"
  obtains info where "allowedExtensions e (strings_ToLower (filepath_Ext file))"
    "osStat e file = Inr info" "\<not> tooOld inc m info" "\<not> IsZero (getFileDate e file)"
    "destFileOf destDir (getFileDate e file) file \<notin> D"
    "checkEvents e inc m destDir file =
       [EvStat file, EvGetFileDate file,
        EvMkdirAll (destMonthDirOf destDir (getFileDate e file)),
        EvStat (destFileOf destDir (getFileDate e file) file)]"
  using assms by (cases "osStat e file") (auto simp: eligible_def allowed_def checkEvents_def)

lemma exec_step_hash_err:
  assumes "eligible e inc m destDir (dest st) file" "getFileHash e file = []"
  shows "exec_step e inc m destDir st file =
     (Continue, st\<lparr>errors := errors st + 1,
                   errorList := errorList st @ [file @ '': hash error''],
                   trace := trace st @ hashEvents e inc m destDir file\<rparr>)"
  using assms(1)
proof (rule eligibleD)
  fix info
  assume "allowedExtensions e (strings_ToLower (filepath_Ext file))"
    "osStat e file = Inr info" "\<not> tooOld inc m info" "\<not> IsZero (getFileDate e file)"
    "destFileOf destDir (getFileDate e file) file \<notin> dest st"
    "checkEvents e inc m destDir file =
       [EvStat file, EvGetFileDate file,
        EvMkdirAll (destMonthDirOf destDir (getFileDate e file)),
        EvStat (destFileOf destDir (getFileDate e file) file)]"
  with assms(2) show ?thesis
    by (simp add: exec_step_def Let_def emit_def hashEvents_def split: prod.split)
qed

lemma exec_step_dup:
  assumes "eligible e inc m destDir (dest st) file" "getFileHash e file \<noteq> []"
    "fileAlreadyProcessed (db st) (getFileHash e file)"
  shows "exec_step e inc m destDir st file =
     (Continue, st\<lparr>duplicates := duplicates st + 1,
                   duplicateFiles := duplicateFiles st @
                     [(file, destFileOf destDir (getFileDate e file) file)],
                   trace := trace st @ hashEvents e inc m destDir file @
                     [EvLookup (getFileHash e file)]\<rparr>)"
  using assms(1)
proof (rule eligibleD)
  fix info
  assume "allowedExtensions e (strings_ToLower (filepath_Ext file))"
    "osStat e file = Inr info" "\<not> tooOld inc m info" "\<not> IsZero (getFileDate e file)"
    "destFileOf destDir (getFileDate e file) file \<notin> dest st"
    "checkEvents e inc m destDir file =
       [EvStat file, EvGetFileDate file,
        EvMkdirAll (destMonthDirOf destDir (getFileDate e file)),
        EvStat (destFileOf destDir (getFileDate e file) file)]"
  with assms(2,3) show ?thesis
    by (simp add: exec_step_def Let_def emit_def hashEvents_def split: prod.split)
qed

lemma exec_step_copy:
  assumes "eligible e inc m destDir (dest st) file" "getFileHash e file \<noteq> []"
    "\<not> fileAlreadyProcessed (db st) (getFileHash e file)"
  shows "exec_step e inc m destDir st file =
     (case copyFileAtomic e file (destFileOf destDir (getFileDate e file) file) of
        CopyOk \<Rightarrow>
          (Continue, st\<lparr>copied := copied st + 1,
                        copiedFiles := copiedFiles st @
                          [(file, destFileOf destDir (getFileDate e file) file)],
                        db := db st @ [recordOf e destDir file],
                        dest := insert (destFileOf destDir (getFileDate e file) file) (dest st),
                        trace := trace st @ hashEvents e inc m destDir file @
                          [EvLookup (getFileHash e file),
                           EvCopy file (destFileOf destDir (getFileDate e file) file),
                           EvInsert (recordOf e destDir file)]\<rparr>)
      | CopyFailed err \<Rightarrow>
          (Continue, st\<lparr>errors := errors st + 1,
                        errorList := errorList st @ [file @ '': copy error: '' @ err],
                        trace := trace st @ hashEvents e inc m destDir file @
                          [EvLookup (getFileHash e file),
                           EvCopy file (destFileOf destDir (getFileDate e file) file)]\<rparr>)
      | CopyCancelled err \<Rightarrow>
          (Break, st\<lparr>errors := errors st + 1,
                     errorList := errorList st @ [file @ '': copy error: '' @ err],
                     trace := trace st @ hashEvents e inc m destDir file @
                       [EvLookup (getFileHash e file),
                        EvCopy file (destFileOf destDir (getFileDate e file) file)]\<rparr>))"
  using assms(1)
proof (rule eligibleD)
  fix info
  assume "allowedExtensions e (strings_ToLower (filepath_Ext file))"
    "osStat e file = Inr info" "\<not> tooOld inc m info" "\<not> IsZero (getFileDate e file)"
    "destFileOf destDir (getFileDate e file) file \<notin> dest st"
    "checkEvents e inc m destDir file =
       [EvStat file, EvGetFileDate file,
        EvMkdirAll (destMonthDirOf destDir (getFileDate e file)),
        EvStat (destFileOf destDir (getFileDate e file) file)]"
  with assms(2,3) show ?thesis
    by (cases "copyFileAtomic e file (destFileOf destDir (getFileDate e file) file)")
       (simp_all add: exec_step_def Let_def emit_def hashEvents_def copyEffect_def copyError_def
          insertFileRecord_def recordOf_def split: prod.split)
qed

lemma hashCalls_append: "hashCalls (xs @ ys) = hashCalls xs @ hashCalls ys"
  by (simp add: hashCalls_def)

lemma copyCalls_append: "copyCalls (xs @ ys) = copyCalls xs @ copyCalls ys"
  by (simp add: copyCalls_def)

lemma hashCalls_checkEvents: "hashCalls (checkEvents e inc m destDir file) = []"
  by (cases "osStat e file") (simp_all add: checkEvents_def hashCalls_def)

lemma copyCalls_checkEvents: "copyCalls (checkEvents e inc m destDir file) = []"
  by (cases "osStat e file") (simp_all add: checkEvents_def copyCalls_def)

lemma hashCalls_hashEvents: "hashCalls (hashEvents e inc m destDir file) = [file]"
  by (simp add: hashEvents_def hashCalls_append hashCalls_checkEvents) (simp add: hashCalls_def)

lemma copyCalls_hashEvents: "copyCalls (hashEvents e inc m destDir file) = []"
  by (simp add: hashEvents_def copyCalls_append copyCalls_checkEvents) (simp add: copyCalls_def)

text \<open>The six ways through one iteration of the second loop.\<close>

lemma exec_step_cases [case_names filtered hashErr dup copyOk copyFailed copyCancelled]:
  obtains
    (filtered) "\<not> eligible e inc m destDir (dest st) file"
      "exec_step e inc m destDir st file =
         (Continue, st\<lparr>errorList := errorList st @ statErrors e file,
                       trace := trace st @ checkEvents e inc m destDir file\<rparr>)"
  | (hashErr) "eligible e inc m destDir (dest st) file" "getFileHash e file = []"
      "exec_step e inc m destDir st file =
         (Continue, st\<lparr>errors := errors st + 1,
                       errorList := errorList st @ [file @ '': hash error''],
                       trace := trace st @ hashEvents e inc m destDir file\<rparr>)"
  | (dup) "eligible e inc m destDir (dest st) file" "getFileHash e file \<noteq> []"
      "fileAlreadyProcessed (db st) (getFileHash e file)"
      "exec_step e inc m destDir st file =
         (Continue, st\<lparr>duplicates := duplicates st + 1,
                       duplicateFiles := duplicateFiles st @
                         [(file, destFileOf destDir (getFileDate e file) file)],
                       trace := trace st @ hashEvents e inc m destDir file @
                         [EvLookup (getFileHash e file)]\<rparr>)"
  | (copyOk) "eligible e inc m destDir (dest st) file" "getFileHash e file \<noteq> []"
      "\<not> fileAlreadyProcessed (db st) (getFileHash e file)"
      "copyFileAtomic e file (destFileOf destDir (getFileDate e file) file) = CopyOk"
      "exec_step e inc m destDir st file =
         (Continue, st\<lparr>copied := copied st + 1,
                       copiedFiles := copiedFiles st @
                         [(file, destFileOf destDir (getFileDate e file) file)],
                       db := db st @ [recordOf e destDir file],
                       dest := insert (destFileOf destDir (getFileDate e file) file) (dest st),
                       trace := trace st @ hashEvents e inc m destDir file @
                         [EvLookup (getFileHash e file),
                          EvCopy file (destFileOf destDir (getFileDate e file) file),
                          EvInsert (recordOf e destDir file)]\<rparr>)"
  | (copyFailed) err where "eligible e inc m destDir (dest st) file" "getFileHash e file \<noteq> []"
      "\<not> fileAlreadyProcessed (db st) (getFileHash e file)"
      "copyFileAtomic e file (destFileOf destDir (getFileDate e file) file) = CopyFailed err"
      "exec_step e inc m destDir st file =
         (Continue, st\<lparr>errors := errors st + 1,
                       errorList := errorList st @ [file @ '': copy error: '' @ err],
                       trace := trace st @ hashEvents e inc m destDir file @
                         [EvLookup (getFileHash e file),
                          EvCopy file (destFileOf destDir (getFileDate e file) file)]\<rparr>)"
  | (copyCancelled) err where "eligible e inc m destDir (dest st) file" "getFileHash e file \<noteq> []"
      "\<not> fileAlreadyProcessed (db st) (getFileHash e file)"
      "copyFileAtomic e file (destFileOf destDir (getFileDate e file) file) = CopyCancelled err"
      "exec_step e inc m destDir st file =
         (Break, st\<lparr>errors := errors st + 1,
                    errorList := errorList st @ [file @ '': copy error: '' @ err],
                    trace := trace st @ hashEvents e inc m destDir file @
                      [EvLookup (getFileHash e file),
                       EvCopy file (destFileOf destDir (getFileDate e file) file)]\<rparr>)"
proof (cases "eligible e inc m destDir (dest st) file")
  case False
  then show ?thesis using filtered exec_step_not_eligible by blast
next
  case el: True
  show ?thesis
  proof (cases "getFileHash e file = []")
    case True
    with el show ?thesis using hashErr exec_step_hash_err by blast
  next
    case h: False
    show ?thesis
    proof (cases "fileAlreadyProcessed (db st) (getFileHash e file)")
      case True
      with el h show ?thesis using dup exec_step_dup by blast
    next
      case nd: False
      note step = exec_step_copy [OF el h nd]
      show ?thesis
      proof (cases "copyFileAtomic e file (destFileOf destDir (getFileDate e file) file)")
        case CopyOk
        with el h nd step show ?thesis using copyOk by simp
      next
        case (CopyFailed err)
        with el h nd step show ?thesis using copyFailed by simp
      next
        case (CopyCancelled err)
        with el h nd step show ?thesis using copyCancelled by simp
      qed
    qed
  qed
qed

subsection \<open>The two loops\<close>

lemma eligible_antimono:
  "D \<subseteq> D' \<Longrightarrow> eligible e inc m destDir D' file \<Longrightarrow> eligible e inc m destDir D file"
  by (cases "osStat e file") (auto simp: eligible_def)

lemma plan_loop_closed:
  "plan_loop e inc m destDir files st =
     st\<lparr>skippedFiles := skippedFiles st @ skippedOf e inc m destDir (dest st) files,
        totalCopiedSize := totalCopiedSize st +
          sum_list (map (sizeOf e) (filter (eligible e inc m destDir (dest st)) files)),
        filesToCopy := filesToCopy st @ filter (eligible e inc m destDir (dest st)) files,
        trace := trace st @ concat (map (checkEvents e inc m destDir) files)\<rparr>"
proof (induction files arbitrary: st)
  case Nil
  show ?case by (simp add: skippedOf_def)
next
  case (Cons f files)
  show ?case
  proof (cases "eligible e inc m destDir (dest st) f")
    case True
    then show ?thesis
      by (simp add: Cons.IH plan_step_eligible skippedOf_def add.assoc)
  next
    case False
    then show ?thesis
      by (simp add: Cons.IH plan_step_not_eligible skippedOf_def)
  qed
qed

lemma exec_step_dest_mono:
  "exec_step e inc m destDir st file = (c, st') \<Longrightarrow> dest st \<subseteq> dest st'"
  by (cases rule: exec_step_cases [of e inc m destDir st "file"]) auto

lemma exec_step_keeps:
  "exec_step e inc m destDir st file = (c, st') \<Longrightarrow>
   skippedFiles st' = skippedFiles st \<and> filesToCopy st' = filesToCopy st \<and>
   totalCopiedSize st' = totalCopiedSize st"
  by (cases rule: exec_step_cases [of e inc m destDir st "file"]) auto

lemma hashCalls_simps:
  "hashCalls [] = []"
  "hashCalls (EvGetFileHash f # tr) = f # hashCalls tr"
  "hashCalls (EvStat p # tr) = hashCalls tr"
  "hashCalls (EvGetFileDate p # tr) = hashCalls tr"
  "hashCalls (EvMkdirAll p # tr) = hashCalls tr"
  "hashCalls (EvGetFileStat p # tr) = hashCalls tr"
  "hashCalls (EvLookup h # tr) = hashCalls tr"
  "hashCalls (EvCopy p d # tr) = hashCalls tr"
  "hashCalls (EvInsert r # tr) = hashCalls tr"
  by (simp_all add: hashCalls_def)

lemma copyCalls_simps:
  "copyCalls [] = []"
  "copyCalls (EvCopy p d # tr) = p # copyCalls tr"
  "copyCalls (EvStat p # tr) = copyCalls tr"
  "copyCalls (EvGetFileDate p # tr) = copyCalls tr"
  "copyCalls (EvMkdirAll p # tr) = copyCalls tr"
  "copyCalls (EvGetFileStat p # tr) = copyCalls tr"
  "copyCalls (EvGetFileHash p # tr) = copyCalls tr"
  "copyCalls (EvLookup h # tr) = copyCalls tr"
  "copyCalls (EvInsert r # tr) = copyCalls tr"
  by (simp_all add: copyCalls_def)

lemmas calls_simps = hashCalls_append copyCalls_append hashCalls_checkEvents
  copyCalls_checkEvents hashCalls_hashEvents copyCalls_hashEvents hashCalls_simps copyCalls_simps

lemma exec_step_calls:
  assumes "exec_step e inc m destDir st file = (c, st')"
  shows "\<exists>evs. trace st' = trace st @ evs \<and>
           (hashCalls evs = [] \<or> hashCalls evs = [file] \<and> eligible e inc m destDir (dest st) file) \<and>
           (copyCalls evs = [] \<or> copyCalls evs = [file] \<and> eligible e inc m destDir (dest st) file)"
  using assms
  by (cases rule: exec_step_cases [of e inc m destDir st "file"]) (auto simp: calls_simps)

lemma exec_loop_dest_mono:
  "exec_loop e inc m destDir i files st = (ex, st') \<Longrightarrow> dest st \<subseteq> dest st'"
proof (induction files arbitrary: i st)
  case Nil
  then show ?case by simp
next
  case (Cons f files)
  show ?case
  proof (cases "ctxDone e i")
    case True
    with Cons.prems show ?thesis by simp
  next
    case False
    obtain c st1 where step: "exec_step e inc m destDir st f = (c, st1)"
      by (cases "exec_step e inc m destDir st f")
    note mono = exec_step_dest_mono [OF step]
    show ?thesis
    proof (cases c)
      case Continue
      with Cons.prems False step
      have "exec_loop e inc m destDir (Suc i) files st1 = (ex, st')" by simp
      from Cons.IH [OF this] mono show ?thesis by blast
    next
      case Break
      with Cons.prems False step mono show ?thesis by simp
    qed
  qed
qed

lemma exec_loop_keeps:
  "exec_loop e inc m destDir i files st = (ex, st') \<Longrightarrow>
   skippedFiles st' = skippedFiles st \<and> filesToCopy st' = filesToCopy st \<and>
   totalCopiedSize st' = totalCopiedSize st"
proof (induction files arbitrary: i st)
  case Nil
  then show ?case by simp
next
  case (Cons f files)
  show ?case
  proof (cases "ctxDone e i")
    case True
    with Cons.prems show ?thesis by simp
  next
    case False
    obtain c st1 where step: "exec_step e inc m destDir st f = (c, st1)"
      by (cases "exec_step e inc m destDir st f")
    note keeps = exec_step_keeps [OF step]
    show ?thesis
    proof (cases c)
      case Continue
      with Cons.prems False step
      have "exec_loop e inc m destDir (Suc i) files st1 = (ex, st')" by simp
      from Cons.IH [OF this] keeps show ?thesis by simp
    next
      case Break
      with Cons.prems False step keeps show ?thesis by simp
    qed
  qed
qed

lemma subseq_step:
  assumes "hs = [] \<or> hs = [f] \<and> P f" "subseq hs' (filter P fs)"
  shows "subseq (hs @ hs') (filter P (f # fs))"
  using assms by (auto intro: subseq_Cons')

lemma exec_loop_calls:
  assumes "exec_loop e inc m destDir i files st = (ex, st')" "D \<subseteq> dest st"
  shows "\<exists>evs. trace st' = trace st @ evs \<and>
           subseq (hashCalls evs) (filter (eligible e inc m destDir D) files) \<and>
           subseq (copyCalls evs) (filter (eligible e inc m destDir D) files)"
  using assms
proof (induction files arbitrary: i st)
  case Nil
  then show ?case by (simp add: calls_simps)
next
  case (Cons f files)
  show ?case
  proof (cases "ctxDone e i")
    case True
    with Cons.prems show ?thesis by (simp add: calls_simps)
  next
    case False
    obtain c st1 where step: "exec_step e inc m destDir st f = (c, st1)"
      by (cases "exec_step e inc m destDir st f")
    from exec_step_calls [OF step] obtain evs1 where
      tr1: "trace st1 = trace st @ evs1" and
      h1: "hashCalls evs1 = [] \<or> hashCalls evs1 = [f] \<and> eligible e inc m destDir (dest st) f" and
      c1: "copyCalls evs1 = [] \<or> copyCalls evs1 = [f] \<and> eligible e inc m destDir (dest st) f"
      by blast
    from h1 Cons.prems(2)
    have h1': "hashCalls evs1 = [] \<or> hashCalls evs1 = [f] \<and> eligible e inc m destDir D f"
      using eligible_antimono by blast
    from c1 Cons.prems(2)
    have c1': "copyCalls evs1 = [] \<or> copyCalls evs1 = [f] \<and> eligible e inc m destDir D f"
      using eligible_antimono by blast
    show ?thesis
    proof (cases c)
      case Continue
      with Cons.prems False step
      have loop: "exec_loop e inc m destDir (Suc i) files st1 = (ex, st')" by simp
      from Cons.prems(2) exec_step_dest_mono [OF step] have "D \<subseteq> dest st1" by blast
      from Cons.IH [OF loop this] obtain evs2 where
        tr2: "trace st' = trace st1 @ evs2" and
        h2: "subseq (hashCalls evs2) (filter (eligible e inc m destDir D) files)" and
        c2: "subseq (copyCalls evs2) (filter (eligible e inc m destDir D) files)"
        by blast
      have "trace st' = trace st @ (evs1 @ evs2)" using tr1 tr2 by simp
      moreover have "subseq (hashCalls (evs1 @ evs2)) (filter (eligible e inc m destDir D) (f # files))"
        unfolding hashCalls_append using h1' h2 by (rule subseq_step)
      moreover have "subseq (copyCalls (evs1 @ evs2)) (filter (eligible e inc m destDir D) (f # files))"
        unfolding copyCalls_append using c1' c2 by (rule subseq_step)
      ultimately show ?thesis by blast
    next
      case Break
      with Cons.prems False step have "st' = st1" by simp
      moreover have "subseq (hashCalls evs1 @ []) (filter (eligible e inc m destDir D) (f # files))"
        using h1' by (rule subseq_step) simp
      moreover have "subseq (copyCalls evs1 @ []) (filter (eligible e inc m destDir D) (f # files))"
        using c1' by (rule subseq_step) simp
      ultimately show ?thesis using tr1 by auto
    qed
  qed
qed

subsection \<open>The incremental threshold\<close>

lemma minMtimeOf_recorded:
  "getLastBackupTime e d = Inr t \<Longrightarrow> \<not> IsZero t \<Longrightarrow> minMtimeOf e d True = Unix t"
  by (simp add: minMtimeOf_def)

subsection \<open>Inserted records and copy reports in a trace\<close>

lemma insertCalls_append: "insertCalls (xs @ ys) = insertCalls xs @ insertCalls ys"
  by (simp add: insertCalls_def)

lemma copyReports_append: "copyReports e (xs @ ys) = copyReports e xs @ copyReports e ys"
  by (simp add: copyReports_def)

lemma insertCalls_simps:
  "insertCalls [] = []"
  "insertCalls (EvInsert r # tr) = r # insertCalls tr"
  "insertCalls (EvStat p # tr) = insertCalls tr"
  "insertCalls (EvGetFileDate p # tr) = insertCalls tr"
  "insertCalls (EvMkdirAll p # tr) = insertCalls tr"
  "insertCalls (EvGetFileStat p # tr) = insertCalls tr"
  "insertCalls (EvGetFileHash p # tr) = insertCalls tr"
  "insertCalls (EvLookup h # tr) = insertCalls tr"
  "insertCalls (EvCopy p d # tr) = insertCalls tr"
  by (simp_all add: insertCalls_def)

lemma copyReports_simps:
  "copyReports e [] = []"
  "copyReports e (EvCopy p d # tr) = copyFileAtomic e p d # copyReports e tr"
  "copyReports e (EvStat p # tr) = copyReports e tr"
  "copyReports e (EvGetFileDate p # tr) = copyReports e tr"
  "copyReports e (EvMkdirAll p # tr) = copyReports e tr"
  "copyReports e (EvGetFileStat p # tr) = copyReports e tr"
  "copyReports e (EvGetFileHash p # tr) = copyReports e tr"
  "copyReports e (EvLookup h # tr) = copyReports e tr"
  "copyReports e (EvInsert r # tr) = copyReports e tr"
  by (simp_all add: copyReports_def)

lemma insertCalls_checkEvents: "insertCalls (checkEvents e inc m destDir file) = []"
  by (cases "osStat e file") (simp_all add: checkEvents_def insertCalls_simps)

lemma copyReports_checkEvents: "copyReports e (checkEvents e inc m destDir file) = []"
  by (cases "osStat e file") (simp_all add: checkEvents_def copyReports_simps)

lemma insertCalls_hashEvents: "insertCalls (hashEvents e inc m destDir file) = []"
  by (simp add: hashEvents_def insertCalls_append insertCalls_checkEvents insertCalls_simps)

lemma copyReports_hashEvents: "copyReports e (hashEvents e inc m destDir file) = []"
  by (simp add: hashEvents_def copyReports_append copyReports_checkEvents copyReports_simps)

lemmas report_simps = insertCalls_append copyReports_append insertCalls_checkEvents
  copyReports_checkEvents insertCalls_hashEvents copyReports_hashEvents insertCalls_simps
  copyReports_simps

subsection \<open>The state after planning, and the two ways a run ends\<close>

lemma hashCalls_concat_checkEvents:
  "hashCalls (concat (map (checkEvents e inc m destDir) files)) = []"
  by (induction files) (simp_all add: calls_simps)

lemma copyCalls_concat_checkEvents:
  "copyCalls (concat (map (checkEvents e inc m destDir) files)) = []"
  by (induction files) (simp_all add: calls_simps)

lemma insertCalls_concat_checkEvents:
  "insertCalls (concat (map (checkEvents e inc m destDir) files)) = []"
  by (induction files) (simp_all add: report_simps)

lemma planned_closed:
  "planned e srcDir destDir dbPath inc =
     (init_state e dbPath)
       \<lparr>skippedFiles := skippedOf e inc (minMtimeOf e (initDB e dbPath) inc) destDir (destFiles e)
          (fst (getAllFiles e srcDir)),
        totalCopiedSize := sum_list (map (sizeOf e)
          (filter (eligible e inc (minMtimeOf e (initDB e dbPath) inc) destDir (destFiles e))
             (fst (getAllFiles e srcDir)))),
        filesToCopy := filter (eligible e inc (minMtimeOf e (initDB e dbPath) inc) destDir (destFiles e))
          (fst (getAllFiles e srcDir)),
        trace := concat (map (checkEvents e inc (minMtimeOf e (initDB e dbPath) inc) destDir)
          (fst (getAllFiles e srcDir)))\<rparr>"
  by (simp add: planned_def plan_loop_closed) (simp add: init_state_def)

lemma planned_fields:
  "dest (planned e srcDir destDir dbPath inc) = destFiles e"
  "db (planned e srcDir destDir dbPath inc) = initDB e dbPath"
  "copied (planned e srcDir destDir dbPath inc) = 0"
  "duplicates (planned e srcDir destDir dbPath inc) = 0"
  "errors (planned e srcDir destDir dbPath inc) = 0"
  "errorList (planned e srcDir destDir dbPath inc) = []"
  "copiedFiles (planned e srcDir destDir dbPath inc) = []"
  "duplicateFiles (planned e srcDir destDir dbPath inc) = []"
  "filesToCopy (planned e srcDir destDir dbPath inc) =
     filter (eligible e inc (minMtimeOf e (initDB e dbPath) inc) destDir (destFiles e))
       (fst (getAllFiles e srcDir))"
  "skippedFiles (planned e srcDir destDir dbPath inc) =
     skippedOf e inc (minMtimeOf e (initDB e dbPath) inc) destDir (destFiles e)
       (fst (getAllFiles e srcDir))"
  "totalCopiedSize (planned e srcDir destDir dbPath inc) =
     sum_list (map (sizeOf e) (filesToCopy (planned e srcDir destDir dbPath inc)))"
  "trace (planned e srcDir destDir dbPath inc) =
     concat (map (checkEvents e inc (minMtimeOf e (initDB e dbPath) inc) destDir)
       (fst (getAllFiles e srcDir)))"
  by (simp_all add: planned_closed) (simp_all add: init_state_def)

text \<open>The two ways a run ends.\<close>

lemma backup_cases [case_names fatal finished]:
  obtains (fatal) reason where
      "backup e srcDir destDir dbPath inc = Fatal reason (planned e srcDir destDir dbPath inc)"
  | (finished) ex st2 where
      "exec_loop e inc (minMtimeOf e (initDB e dbPath) inc) destDir 0 (fst (getAllFiles e srcDir))
         (planned e srcDir destDir dbPath inc) = (ex, st2)"
      "backup e srcDir destDir dbPath inc =
         Finished ex (cleanup (snd (getAllFiles e srcDir)) st2)"
proof (cases "getFreeSpace e destDir")
  case (Inl err)
  then have "backup e srcDir destDir dbPath inc =
      Fatal (NoFreeSpaceInfo err) (planned e srcDir destDir dbPath inc)"
    by (simp add: backup_def Let_def split: prod.split)
  then show ?thesis by (rule fatal)
next
  case (Inr free)
  let ?st1 = "planned e srcDir destDir dbPath inc"
  let ?req = "totalCopiedSize ?st1 + estimateDBSize e (length (filesToCopy ?st1))"
  show ?thesis
  proof (cases "free < ?req")
    case True
    with Inr have "backup e srcDir destDir dbPath inc = Fatal (NotEnoughFreeSpace ?req free) ?st1"
      by (simp add: backup_def Let_def split: prod.split)
    then show ?thesis by (rule fatal)
  next
    case False
    obtain ex st2 where loop:
      "exec_loop e inc (minMtimeOf e (initDB e dbPath) inc) destDir 0 (fst (getAllFiles e srcDir))
         ?st1 = (ex, st2)"
      by (cases "exec_loop e inc (minMtimeOf e (initDB e dbPath) inc) destDir 0
            (fst (getAllFiles e srcDir)) ?st1")
    with Inr False have "backup e srcDir destDir dbPath inc =
        Finished ex (cleanup (snd (getAllFiles e srcDir)) st2)"
      by (auto simp: backup_def Let_def split: prod.split)
    with loop show ?thesis by (rule finished)
  qed
qed

lemma cleanup_fields:
  "trace (cleanup w st) = trace st" "db (cleanup w st) = db st" "dest (cleanup w st) = dest st"
  "copied (cleanup w st) = copied st" "duplicates (cleanup w st) = duplicates st"
  "errors (cleanup w st) = errors st" "copiedFiles (cleanup w st) = copiedFiles st"
  "duplicateFiles (cleanup w st) = duplicateFiles st" "skippedFiles (cleanup w st) = skippedFiles st"
  "filesToCopy (cleanup w st) = filesToCopy st" "totalCopiedSize (cleanup w st) = totalCopiedSize st"
  "errorList (cleanup w st) = errorList st @ map (\<lambda>walkErr. ''walk error: '' @ walkErr) w"
  by (simp_all add: cleanup_def)

lemma exec_step_hash_shape:
  assumes "exec_step e inc m destDir st file = (c, st')"
  shows "\<exists>evs. trace st' = trace st @ evs \<and>
           (hashCalls evs = [] \<or>
            eligible e inc m destDir (dest st) file \<and> hashCalls evs = [file] \<and>
            (\<exists>rest. evs =
               [EvStat file, EvGetFileDate file,
                EvMkdirAll (destMonthDirOf destDir (getFileDate e file)),
                EvStat (destFileOf destDir (getFileDate e file) file),
                EvGetFileStat file, EvGetFileHash file] @ rest))"
proof (cases "eligible e inc m destDir (dest st) file")
  case False
  with assms show ?thesis
    by (auto simp: exec_step_not_eligible calls_simps)
next
  case True
  then have ev: "hashEvents e inc m destDir file =
      [EvStat file, EvGetFileDate file,
       EvMkdirAll (destMonthDirOf destDir (getFileDate e file)),
       EvStat (destFileOf destDir (getFileDate e file) file),
       EvGetFileStat file, EvGetFileHash file]"
    by (rule eligibleD) (simp add: hashEvents_def)
  have "\<exists>rest. trace st' = trace st @ hashEvents e inc m destDir file @ rest \<and> hashCalls rest = []"
    using assms True
    by (cases rule: exec_step_cases [of e inc m destDir st "file"]) (auto simp: calls_simps)
  then obtain rest where tr: "trace st' = trace st @ hashEvents e inc m destDir file @ rest"
    and r: "hashCalls rest = []" by blast
  have "hashCalls (hashEvents e inc m destDir file @ rest) = [file]"
    using r by (simp add: calls_simps)
  with tr True ev show ?thesis by auto
qed

lemma subseq_distinct: "subseq xs ys \<Longrightarrow> distinct ys \<Longrightarrow> distinct xs"
proof (induction rule: list_emb.induct)
  case (list_emb_Cons2 x y xs ys)
  then have "set xs \<subseteq> set ys" by (auto dest: list_emb_set)
  with list_emb_Cons2 show ?case by auto
qed auto

lemma run_calls:
  "\<exists>evs. trace (finalState (backup e srcDir destDir dbPath inc)) =
           trace (planned e srcDir destDir dbPath inc) @ evs \<and>
         subseq (hashCalls evs) (filesToCopy (planned e srcDir destDir dbPath inc)) \<and>
         subseq (copyCalls evs) (filesToCopy (planned e srcDir destDir dbPath inc))"
proof (cases rule: backup_cases [of e srcDir destDir dbPath inc])
  case (fatal reason)
  then show ?thesis by (simp add: calls_simps)
next
  case (finished ex st2)
  from exec_loop_calls [OF finished(1), of "destFiles e"] finished(2)
  show ?thesis by (simp add: planned_fields cleanup_fields)
qed

subsection \<open>Sums of sizes\<close>

lemma unat_sum_list_exact:
  "sum_list (map unat ws) + n < 2 ^ 64 \<Longrightarrow>
   unat (sum_list ws :: 64 word) = sum_list (map unat ws)"
proof (induction ws arbitrary: n)
  case Nil
  show ?case by simp
next
  case (Cons w ws)
  from Cons.prems have "sum_list (map unat ws) + (unat w + n) < 2 ^ 64" by simp
  from Cons.IH [OF this] have ih: "unat (sum_list ws) = sum_list (map unat ws)" .
  from Cons.prems have "unat w + sum_list (map unat ws) < 2 ^ 64" by simp
  with ih have "unat w + unat (sum_list ws) < 2 ^ LENGTH(64)" by simp
  then have "unat (w + sum_list ws) = unat w + unat (sum_list ws)"
    by (rule iffD1 [OF unat_add_lem])
  with ih show ?case by simp
qed


subsection \<open>Invariants of the second loop\<close>

lemma exec_loop_prefix:
  "exec_loop e inc m destDir i (take N files) st = (Completed, st') \<Longrightarrow> N < length files \<Longrightarrow>
   ctxDone e (i + N) \<Longrightarrow> exec_loop e inc m destDir i files st = (Interrupted, st')"
proof (induction files arbitrary: i N st)
  case Nil
  then show ?case by simp
next
  case (Cons f files)
  show ?case
  proof (cases N)
    case 0
    with Cons.prems show ?thesis by simp
  next
    case (Suc n)
    with Cons.prems(1)
    have run: "exec_loop e inc m destDir i (f # take n files) st = (Completed, st')" by simp
    then have nd: "\<not> ctxDone e i" by (auto split: if_splits)
    obtain c st1 where step: "exec_step e inc m destDir st f = (c, st1)"
      by (cases "exec_step e inc m destDir st f")
    from run nd step have c: "c = Continue" by (cases c) auto
    with run nd step
    have "exec_loop e inc m destDir (Suc i) (take n files) st1 = (Completed, st')" by simp
    moreover from Cons.prems(2) Suc have "n < length files" by simp
    moreover from Cons.prems(3) Suc have "ctxDone e (Suc i + n)" by simp
    ultimately have "exec_loop e inc m destDir (Suc i) files st1 = (Interrupted, st')"
      by (rule Cons.IH)
    with nd step c show ?thesis by simp
  qed
qed

lemma exec_loop_invariant:
  assumes "exec_loop e inc m destDir i files st = (ex, st')" "P st"
    and step: "\<And>s f c s1. P s \<Longrightarrow> exec_step e inc m destDir s f = (c, s1) \<Longrightarrow> P s1"
  shows "P st'"
  using assms(1,2)
proof (induction files arbitrary: i st)
  case Nil
  then show ?case by simp
next
  case (Cons f files)
  show ?case
  proof (cases "ctxDone e i")
    case True
    with Cons.prems show ?thesis by simp
  next
    case False
    obtain c st1 where s: "exec_step e inc m destDir st f = (c, st1)"
      by (cases "exec_step e inc m destDir st f")
    from step [OF Cons.prems(2) s] have p1: "P st1" .
    show ?thesis
    proof (cases c)
      case Continue
      with Cons.prems(1) False s
      have "exec_loop e inc m destDir (Suc i) files st1 = (ex, st')" by simp
      from Cons.IH [OF this p1] show ?thesis .
    next
      case Break
      with Cons.prems(1) False s p1 show ?thesis by simp
    qed
  qed
qed

lemma exec_loop_appends:
  assumes step: "\<And>s f c s1. exec_step e inc m destDir s f = (c, s1) \<Longrightarrow>
      g s1 = g s \<or> g s1 = g s @ [f] \<and> eligible e inc m destDir (dest s) f"
    and "exec_loop e inc m destDir i files st = (ex, st')" "D \<subseteq> dest st"
  shows "\<exists>xs. g st' = g st @ xs \<and> subseq xs (filter (eligible e inc m destDir D) files)"
  using assms(2,3)
proof (induction files arbitrary: i st)
  case Nil
  then show ?case by simp
next
  case (Cons f files)
  show ?case
  proof (cases "ctxDone e i")
    case True
    with Cons.prems show ?thesis by simp
  next
    case False
    obtain c st1 where s: "exec_step e inc m destDir st f = (c, st1)"
      by (cases "exec_step e inc m destDir st f")
    have "\<exists>x1. g st1 = g st @ x1 \<and> (x1 = [] \<or> x1 = [f] \<and> eligible e inc m destDir D f)"
    proof (cases "g st1 = g st")
      case True
      then show ?thesis by simp
    next
      case False
      with step [OF s] have a: "g st1 = g st @ [f]" and "eligible e inc m destDir (dest st) f"
        by blast+
      with Cons.prems(2) have "eligible e inc m destDir D f"
        by (blast intro: eligible_antimono)
      with a show ?thesis by simp
    qed
    then obtain x1 where
      g1: "g st1 = g st @ x1" and x1: "x1 = [] \<or> x1 = [f] \<and> eligible e inc m destDir D f"
      by blast
    show ?thesis
    proof (cases c)
      case Continue
      with Cons.prems(1) False s
      have loop: "exec_loop e inc m destDir (Suc i) files st1 = (ex, st')" by simp
      from Cons.prems(2) exec_step_dest_mono [OF s] have "D \<subseteq> dest st1" by blast
      from Cons.IH [OF loop this] obtain x2 where
        g2: "g st' = g st1 @ x2" and x2: "subseq x2 (filter (eligible e inc m destDir D) files)"
        by blast
      from x1 x2 have "subseq (x1 @ x2) (filter (eligible e inc m destDir D) (f # files))"
        by (rule subseq_step)
      with g1 g2 show ?thesis by simp
    next
      case Break
      with Cons.prems(1) False s have "st' = st1" by simp
      moreover from x1 have "subseq (x1 @ []) (filter (eligible e inc m destDir D) (f # files))"
        by (rule subseq_step) simp
      ultimately show ?thesis using g1 by simp
    qed
  qed
qed

lemma exec_step_copied_src:
  "exec_step e inc m destDir s f = (c, s1) \<Longrightarrow>
   map fst (copiedFiles s1) = map fst (copiedFiles s) \<or>
   map fst (copiedFiles s1) = map fst (copiedFiles s) @ [f] \<and> eligible e inc m destDir (dest s) f"
  by (cases rule: exec_step_cases [of e inc m destDir s f]) auto

lemma exec_step_duplicate_src:
  "exec_step e inc m destDir s f = (c, s1) \<Longrightarrow>
   map fst (duplicateFiles s1) = map fst (duplicateFiles s) \<or>
   map fst (duplicateFiles s1) = map fst (duplicateFiles s) @ [f] \<and>
     eligible e inc m destDir (dest s) f"
  by (cases rule: exec_step_cases [of e inc m destDir s f]) auto

lemma exec_step_counts:
  "exec_step e inc m destDir s f = (c, s1) \<Longrightarrow>
   copied s + duplicates s + errors s = length (hashCalls (trace s)) \<Longrightarrow>
   copied s1 + duplicates s1 + errors s1 = length (hashCalls (trace s1))"
  by (cases rule: exec_step_cases [of e inc m destDir s f]) (auto simp: calls_simps)

lemma run_outcomes:
  "skippedFiles (finalState (backup e srcDir destDir dbPath inc)) =
     skippedFiles (planned e srcDir destDir dbPath inc) \<and>
   filesToCopy (finalState (backup e srcDir destDir dbPath inc)) =
     filesToCopy (planned e srcDir destDir dbPath inc) \<and>
   totalCopiedSize (finalState (backup e srcDir destDir dbPath inc)) =
     totalCopiedSize (planned e srcDir destDir dbPath inc) \<and>
   subseq (map fst (copiedFiles (finalState (backup e srcDir destDir dbPath inc))))
     (filesToCopy (planned e srcDir destDir dbPath inc)) \<and>
   subseq (map fst (duplicateFiles (finalState (backup e srcDir destDir dbPath inc))))
     (filesToCopy (planned e srcDir destDir dbPath inc)) \<and>
   copied (finalState (backup e srcDir destDir dbPath inc)) +
     duplicates (finalState (backup e srcDir destDir dbPath inc)) +
     errors (finalState (backup e srcDir destDir dbPath inc)) =
     length (hashCalls (trace (finalState (backup e srcDir destDir dbPath inc))))"
proof (cases rule: backup_cases [of e srcDir destDir dbPath inc])
  case (fatal reason)
  then show ?thesis
    by (simp add: planned_fields hashCalls_concat_checkEvents)
next
  case (finished ex st2)
  let ?m = "minMtimeOf e (initDB e dbPath) inc"
  let ?p = "planned e srcDir destDir dbPath inc"
  note loop = finished(1)
  have d: "destFiles e \<subseteq> dest ?p" by (simp add: planned_fields)
  from exec_loop_appends [where g = "\<lambda>s. map fst (copiedFiles s)", OF exec_step_copied_src loop d]
  have c: "subseq (map fst (copiedFiles st2)) (filesToCopy ?p)"
    by (simp add: planned_fields)
  from exec_loop_appends [where g = "\<lambda>s. map fst (duplicateFiles s)",
      OF exec_step_duplicate_src loop d]
  have u: "subseq (map fst (duplicateFiles st2)) (filesToCopy ?p)"
    by (simp add: planned_fields)
  have "copied ?p + duplicates ?p + errors ?p = length (hashCalls (trace ?p))"
    by (simp add: planned_fields hashCalls_concat_checkEvents)
  with loop have n: "copied st2 + duplicates st2 + errors st2 = length (hashCalls (trace st2))"
    by (rule exec_loop_invariant) (rule exec_step_counts)
  from exec_loop_keeps [OF loop] c u n finished(2) show ?thesis
    by (simp add: cleanup_fields)
qed

lemma subseq_sum_list_le:
  fixes g :: "'a \<Rightarrow> nat"
  shows "subseq xs ys \<Longrightarrow> sum_list (map g xs) \<le> sum_list (map g ys)"
  by (induction rule: list_emb.induct) auto

lemma exec_step_inserts:
  assumes "exec_step e inc m destDir st file = (c, st')"
  shows "\<exists>evs. trace st' = trace st @ evs \<and>
           db st' = db st @ insertCalls evs \<and>
           (insertCalls evs \<noteq> [] \<longleftrightarrow> CopyOk \<in> set (copyReports e evs)) \<and>
           (insertCalls evs = [] \<or> insertCalls evs = [recordOf e destDir file]) \<and>
           (duplicates st' \<noteq> duplicates st \<longrightarrow> insertCalls evs = []) \<and>
           (errors st' \<noteq> errors st \<longrightarrow> insertCalls evs = []) \<and>
           (c = Break \<longrightarrow> insertCalls evs = [])"
  using assms
  by (cases rule: exec_step_cases [of e inc m destDir st "file"]) (auto simp: report_simps)

lemma copyReports_concat_checkEvents:
  "copyReports e (concat (map (checkEvents e inc m destDir) files)) = []"
  by (induction files) (simp_all add: report_simps)

lemma exec_step_records:
  assumes "exec_step e inc m destDir s f = (c, s1)"
    and "db s = d0 @ insertCalls (trace s)"
    and "map (\<lambda>r. (recSrc r, recDst r)) (insertCalls (trace s)) = copiedFiles s"
    and "length (filter (\<lambda>r. r = CopyOk) (copyReports e (trace s))) = length (insertCalls (trace s))"
  shows "db s1 = d0 @ insertCalls (trace s1) \<and>
         map (\<lambda>r. (recSrc r, recDst r)) (insertCalls (trace s1)) = copiedFiles s1 \<and>
         length (filter (\<lambda>r. r = CopyOk) (copyReports e (trace s1))) = length (insertCalls (trace s1))"
  using assms
  by (cases rule: exec_step_cases [of e inc m destDir s f])
     (auto simp: report_simps recordOf_def)

lemma run_records:
  "db (finalState (backup e srcDir destDir dbPath inc)) =
     initDB e dbPath @ insertCalls (trace (finalState (backup e srcDir destDir dbPath inc))) \<and>
   map (\<lambda>r. (recSrc r, recDst r))
     (insertCalls (trace (finalState (backup e srcDir destDir dbPath inc)))) =
     copiedFiles (finalState (backup e srcDir destDir dbPath inc)) \<and>
   length (filter (\<lambda>r. r = CopyOk)
     (copyReports e (trace (finalState (backup e srcDir destDir dbPath inc))))) =
     length (insertCalls (trace (finalState (backup e srcDir destDir dbPath inc))))"
proof (cases rule: backup_cases [of e srcDir destDir dbPath inc])
  case (fatal reason)
  then show ?thesis
    by (simp add: planned_fields insertCalls_concat_checkEvents copyReports_concat_checkEvents)
next
  case (finished ex st2)
  let ?p = "planned e srcDir destDir dbPath inc"
  let ?I = "\<lambda>s. db s = initDB e dbPath @ insertCalls (trace s) \<and>
      map (\<lambda>r. (recSrc r, recDst r)) (insertCalls (trace s)) = copiedFiles s \<and>
      length (filter (\<lambda>r. r = CopyOk) (copyReports e (trace s))) = length (insertCalls (trace s))"
  have "?I ?p"
    by (simp add: planned_fields insertCalls_concat_checkEvents copyReports_concat_checkEvents)
  with finished(1) have "?I st2"
    by (rule exec_loop_invariant) (rule exec_step_records, auto)
  with finished(2) show ?thesis by (simp add: cleanup_fields)
qed

subsection \<open>Counting the outcomes of a completed loop\<close>

lemma eligible_fresh:
  "eligible e inc m destDir D f \<Longrightarrow> destFileOf destDir (getFileDate e f) f \<notin> D' \<Longrightarrow>
   eligible e inc m destDir D' f"
  by (cases "osStat e f") (auto simp: eligible_def)

lemma eligible_not_present:
  "eligible e inc m destDir D f \<Longrightarrow> destFileOf destDir (getFileDate e f) f \<notin> D"
  by (cases "osStat e f") (auto simp: eligible_def)

lemma exec_step_eligible_counts:
  assumes "exec_step e inc m destDir s f = (Continue, s1)"
    and "eligible e inc m destDir (dest s) f"
  shows "copied s1 + duplicates s1 + errors s1 = copied s + duplicates s + errors s + 1 \<and>
         dest s1 \<subseteq> insert (destFileOf destDir (getFileDate e f) f) (dest s)"
  using assms
  by (cases rule: exec_step_cases [of e inc m destDir s f]) auto

lemma exec_step_filtered_counts:
  assumes "exec_step e inc m destDir s f = (c, s1)"
    and "\<not> eligible e inc m destDir (dest s) f"
  shows "copied s1 + duplicates s1 + errors s1 = copied s + duplicates s + errors s \<and>
         dest s1 = dest s"
  using assms by (simp add: exec_step_not_eligible) auto

lemma exec_step_lengths:
  "exec_step e inc m destDir s f = (c, s1) \<Longrightarrow>
   copied s = length (copiedFiles s) \<and> duplicates s = length (duplicateFiles s) \<Longrightarrow>
   copied s1 = length (copiedFiles s1) \<and> duplicates s1 = length (duplicateFiles s1)"
  by (cases rule: exec_step_cases [of e inc m destDir s f]) auto

lemma exec_loop_completed_counts:
  assumes "exec_loop e inc m destDir i files st = (Completed, st')"
    and "D \<subseteq> dest st"
    and "\<forall>f \<in> set (filter (eligible e inc m destDir D) files).
           destFileOf destDir (getFileDate e f) f \<notin> dest st"
    and "distinct (map (\<lambda>f. destFileOf destDir (getFileDate e f) f)
           (filter (eligible e inc m destDir D) files))"
  shows "copied st' + duplicates st' + errors st' =
         copied st + duplicates st + errors st + length (filter (eligible e inc m destDir D) files)"
  using assms
proof (induction files arbitrary: i st)
  case Nil
  then show ?case by simp
next
  case (Cons f files)
  let ?el = "eligible e inc m destDir D"
  let ?dst = "\<lambda>f. destFileOf destDir (getFileDate e f) f"
  from Cons.prems(1) have nd: "\<not> ctxDone e i" by (auto split: if_splits)
  obtain c st1 where step: "exec_step e inc m destDir st f = (c, st1)"
    by (cases "exec_step e inc m destDir st f")
  from Cons.prems(1) nd step have c: "c = Continue" by (cases c) auto
  with Cons.prems(1) nd step
  have loop: "exec_loop e inc m destDir (Suc i) files st1 = (Completed, st')" by simp
  from Cons.prems(2) exec_step_dest_mono [OF step] have sub: "D \<subseteq> dest st1" by blast
  show ?case
  proof (cases "?el f")
    case True
    with Cons.prems(3) have "?dst f \<notin> dest st" by simp
    with True have "eligible e inc m destDir (dest st) f" by (rule eligible_fresh)
    with step c have cnt: "copied st1 + duplicates st1 + errors st1 =
        copied st + duplicates st + errors st + 1"
      and d1: "dest st1 \<subseteq> insert (?dst f) (dest st)"
      using exec_step_eligible_counts by blast+
    from Cons.prems(4) True have dist: "distinct (map ?dst (filter ?el files))"
      and new: "?dst f \<notin> ?dst ` set (filter ?el files)"
      by simp_all
    have fresh: "\<forall>g \<in> set (filter ?el files). ?dst g \<notin> dest st1"
    proof
      fix g assume g: "g \<in> set (filter ?el files)"
      with Cons.prems(3) have "?dst g \<notin> dest st" by simp
      moreover from g have "?dst g \<in> ?dst ` set (filter ?el files)" by (rule imageI)
      with new have "?dst g \<noteq> ?dst f" by auto
      ultimately show "?dst g \<notin> dest st1" using d1 by blast
    qed
    from Cons.IH [OF loop sub fresh dist] cnt True show ?thesis by simp
  next
    case False
    then have "\<not> eligible e inc m destDir (dest st) f"
      using Cons.prems(2) eligible_antimono by blast
    with step have cnt: "copied st1 + duplicates st1 + errors st1 =
        copied st + duplicates st + errors st" and d1: "dest st1 = dest st"
      using exec_step_filtered_counts by blast+
    from Cons.prems(3) False d1
    have fresh: "\<forall>g \<in> set (filter ?el files). ?dst g \<notin> dest st1" by simp
    from Cons.prems(4) False have dist: "distinct (map ?dst (filter ?el files))" by simp
    from Cons.IH [OF loop sub fresh dist] cnt False show ?thesis by simp
  qed
qed

lemma length_skippedOf:
  "length (skippedOf e inc m destDir D files) + length (filter (eligible e inc m destDir D) files) =
   length files"
  by (simp add: skippedOf_def sum_length_filter_compl add.commute)

section \<open>The claims\<close>

subsection \<open>C1: the accounting of a completed run\<close>

text \<open>
  Claim C1. For every run that completes without cancellation, the candidates counted as
  copied, skipped, duplicate and error (errors of candidates, not walk errors) add up to
  the number of candidates that the scanner returned. The code checks this sum itself
  when it prints its summary. The world \<open>collideEnv\<close> has two pictures of the same name
  and month in two source directories, an empty destination and no walk error. Both
  pass the planning pass, so neither is recorded as skipped. In the execution pass the
  first is copied; the second then finds its destination path present and leaves its
  iteration without any entry. The run completes with two candidates found and one
  accounted for.
\<close>

theorem C1_collision_leaves_candidate_unaccounted:
  "fst (getAllFiles collideEnv ''/src'') = [''/src/a/IMG_0001.jpg'', ''/src/b/IMG_0001.jpg''] \<and>
   snd (getAllFiles collideEnv ''/src'') = [] \<and>
   exitOf (backup collideEnv ''/src'' ''/dst'' ''/dst/bozobackup.db'' False) = Some Completed \<and>
   copiedFiles (finalState (backup collideEnv ''/src'' ''/dst'' ''/dst/bozobackup.db'' False)) =
     [(''/src/a/IMG_0001.jpg'', ''/dst/2023-06/IMG_0001.jpg'')] \<and>
   skippedFiles (finalState (backup collideEnv ''/src'' ''/dst'' ''/dst/bozobackup.db'' False)) = [] \<and>
   duplicateFiles (finalState (backup collideEnv ''/src'' ''/dst'' ''/dst/bozobackup.db'' False)) = [] \<and>
   errors (finalState (backup collideEnv ''/src'' ''/dst'' ''/dst/bozobackup.db'' False)) = 0 \<and>
   errorList (finalState (backup collideEnv ''/src'' ''/dst'' ''/dst/bozobackup.db'' False)) = [] \<and>
   totalFound collideEnv ''/src'' = 2 \<and>
   totalAccounted collideEnv ''/src''
     (finalState (backup collideEnv ''/src'' ''/dst'' ''/dst/bozobackup.db'' False)) = 1"
  by code_simp

text \<open>
  The sum does hold for every completed run in which no two files of the planned
  copy-set have the same destination path: then each scanned file is counted once, as
  skipped by the first loop or as copied, duplicate or error by the second.
\<close>

theorem accounting_without_collision:
  assumes "exitOf (backup e srcDir destDir dbPath inc) = Some Completed"
    and "distinct (map (\<lambda>f. destFileOf destDir (getFileDate e f) f)
           (filesToCopy (planned e srcDir destDir dbPath inc)))"
  shows "totalCopied (finalState (backup e srcDir destDir dbPath inc)) +
         totalSkipped (finalState (backup e srcDir destDir dbPath inc)) +
         totalDuplicates (finalState (backup e srcDir destDir dbPath inc)) +
         errors (finalState (backup e srcDir destDir dbPath inc)) = totalFound e srcDir"
proof (cases rule: backup_cases [of e srcDir destDir dbPath inc])
  case (fatal reason)
  with assms(1) show ?thesis by simp
next
  case (finished ex st2)
  let ?m = "minMtimeOf e (initDB e dbPath) inc"
  let ?p = "planned e srcDir destDir dbPath inc"
  let ?files = "fst (getAllFiles e srcDir)"
  from finished(2) assms(1) have ex: "ex = Completed" by simp
  with finished(1) have loop: "exec_loop e inc ?m destDir 0 ?files ?p = (Completed, st2)" by simp
  have sub: "destFiles e \<subseteq> dest ?p" by (simp add: planned_fields)
  have fresh: "\<forall>f \<in> set (filter (eligible e inc ?m destDir (destFiles e)) ?files).
      destFileOf destDir (getFileDate e f) f \<notin> dest ?p"
    by (auto simp: planned_fields dest: eligible_not_present)
  from assms(2) have dist: "distinct (map (\<lambda>f. destFileOf destDir (getFileDate e f) f)
      (filter (eligible e inc ?m destDir (destFiles e)) ?files))"
    by (simp add: planned_fields)
  from exec_loop_completed_counts [OF loop sub fresh dist]
  have cnt: "copied st2 + duplicates st2 + errors st2 =
      length (filter (eligible e inc ?m destDir (destFiles e)) ?files)"
    by (simp add: planned_fields)
  have "copied ?p = length (copiedFiles ?p) \<and> duplicates ?p = length (duplicateFiles ?p)"
    by (simp add: planned_fields)
  with loop have len: "copied st2 = length (copiedFiles st2) \<and>
      duplicates st2 = length (duplicateFiles st2)"
    by (rule exec_loop_invariant) (rule exec_step_lengths)
  from exec_loop_keeps [OF loop]
  have sk: "skippedFiles st2 = skippedOf e inc ?m destDir (destFiles e) ?files"
    by (simp add: planned_fields)
  from length_skippedOf [of e inc ?m destDir "destFiles e" ?files] cnt len sk finished(2)
  show ?thesis
    by (simp add: totalCopied_def totalSkipped_def totalDuplicates_def totalFound_def
        cleanup_fields)
qed

theorem accounting_without_collision_at_oneEnv:
  "exitOf (backup oneEnv ''/src'' ''/dst'' ''/dst/bozobackup.db'' False) = Some Completed \<and>
   distinct (map (\<lambda>f. destFileOf ''/dst'' (getFileDate oneEnv f) f)
     (filesToCopy (planned oneEnv ''/src'' ''/dst'' ''/dst/bozobackup.db'' False))) \<and>
   totalFound oneEnv ''/src'' = 1 \<and>
   totalCopied (finalState (backup oneEnv ''/src'' ''/dst'' ''/dst/bozobackup.db'' False)) +
   totalSkipped (finalState (backup oneEnv ''/src'' ''/dst'' ''/dst/bozobackup.db'' False)) +
   totalDuplicates (finalState (backup oneEnv ''/src'' ''/dst'' ''/dst/bozobackup.db'' False)) +
   errors (finalState (backup oneEnv ''/src'' ''/dst'' ''/dst/bozobackup.db'' False)) = 1"
proof -
  have h1: "exitOf (backup oneEnv ''/src'' ''/dst'' ''/dst/bozobackup.db'' False) = Some Completed"
    by code_simp
  have h2: "distinct (map (\<lambda>f. destFileOf ''/dst'' (getFileDate oneEnv f) f)
      (filesToCopy (planned oneEnv ''/src'' ''/dst'' ''/dst/bozobackup.db'' False)))"
    by code_simp
  have n: "totalFound oneEnv ''/src'' = 1"
    by code_simp
  from accounting_without_collision [OF h1 h2] n h1 h2 show ?thesis by simp
qed

subsection \<open>C2: a dedup record for a successful copy, and for nothing else\<close>

text \<open>
  Claim C2. For every candidate, a dedup record is inserted into the index if and only if
  the copy operation for that candidate reported success; no record is inserted on a
  Duplicate outcome, on a copy failure or on a cancellation. First, one iteration of the
  second loop, from any state: the index grows by exactly the records of the
  \<open>insertFileRecord\<close> calls of the iteration; there is such a call if and only if a
  \<open>copyFileAtomic\<close> call of the iteration reported success, and then it is the one
  record of this candidate; an iteration that counts a duplicate or an error, or that
  leaves the loop by \<open>break\<close>, inserts nothing. Then a whole run, however it ends: the
  index is the index the run started with, followed by the records inserted; these are,
  one for one and in order, the copied pairs; and they are as many as the copy calls
  that reported success.
\<close>

theorem C2_record_iff_copy_succeeded:
  "(exec_step e inc m destDir st file = (c, st') \<longrightarrow>
      (\<exists>evs. trace st' = trace st @ evs \<and>
         db st' = db st @ insertCalls evs \<and>
         (insertCalls evs \<noteq> [] \<longleftrightarrow> CopyOk \<in> set (copyReports e evs)) \<and>
         (insertCalls evs = [] \<or> insertCalls evs = [recordOf e destDir file]) \<and>
         (duplicates st' \<noteq> duplicates st \<longrightarrow> insertCalls evs = []) \<and>
         (errors st' \<noteq> errors st \<longrightarrow> insertCalls evs = []) \<and>
         (c = Break \<longrightarrow> insertCalls evs = []))) \<and>
   db (finalState (backup e srcDir destDir dbPath inc)) =
     initDB e dbPath @ insertCalls (trace (finalState (backup e srcDir destDir dbPath inc))) \<and>
   map (\<lambda>r. (recSrc r, recDst r))
     (insertCalls (trace (finalState (backup e srcDir destDir dbPath inc)))) =
     copiedFiles (finalState (backup e srcDir destDir dbPath inc)) \<and>
   length (filter (\<lambda>r. r = CopyOk)
     (copyReports e (trace (finalState (backup e srcDir destDir dbPath inc))))) =
     length (insertCalls (trace (finalState (backup e srcDir destDir dbPath inc))))"
  using exec_step_inserts [of e inc m destDir st "file" c st']
    run_records [of e srcDir destDir dbPath inc]
  by blast

theorem C2_witness:
  "exec_step oneEnv False 0 ''/dst'' (planned oneEnv ''/src'' ''/dst'' ''/dst/bozobackup.db'' False)
     ''/src/IMG_0001.jpg'' =
     (Continue, finalState (backup oneEnv ''/src'' ''/dst'' ''/dst/bozobackup.db'' False)) \<and>
   copyFileAtomic oneEnv ''/src/IMG_0001.jpg'' ''/dst/2023-06/IMG_0001.jpg'' = CopyOk \<and>
   db (planned oneEnv ''/src'' ''/dst'' ''/dst/bozobackup.db'' False) = [] \<and>
   db (finalState (backup oneEnv ''/src'' ''/dst'' ''/dst/bozobackup.db'' False)) =
     [\<lparr>recSrc = ''/src/IMG_0001.jpg'', recDst = ''/dst/2023-06/IMG_0001.jpg'',
       recHash = ''sha256 of /src/IMG_0001.jpg'', recSize = 1000, recMtime = 1686787200\<rparr>] \<and>
   copiedFiles (finalState (backup oneEnv ''/src'' ''/dst'' ''/dst/bozobackup.db'' False)) =
     [(''/src/IMG_0001.jpg'', ''/dst/2023-06/IMG_0001.jpg'')] \<and>
   (\<exists>evs. trace (finalState (backup oneEnv ''/src'' ''/dst'' ''/dst/bozobackup.db'' False)) =
            trace (planned oneEnv ''/src'' ''/dst'' ''/dst/bozobackup.db'' False) @ evs \<and>
          insertCalls evs = [recordOf oneEnv ''/dst'' ''/src/IMG_0001.jpg''] \<and>
          CopyOk \<in> set (copyReports oneEnv evs))"
proof -
  let ?p = "planned oneEnv ''/src'' ''/dst'' ''/dst/bozobackup.db'' False"
  let ?f = "finalState (backup oneEnv ''/src'' ''/dst'' ''/dst/bozobackup.db'' False)"
  have step: "exec_step oneEnv False 0 ''/dst'' ?p ''/src/IMG_0001.jpg'' = (Continue, ?f)"
    by code_simp
  have ok: "copyFileAtomic oneEnv ''/src/IMG_0001.jpg'' ''/dst/2023-06/IMG_0001.jpg'' = CopyOk"
    by code_simp
  have d0: "db ?p = []"
    by code_simp
  have d1: "db ?f =
     [\<lparr>recSrc = ''/src/IMG_0001.jpg'', recDst = ''/dst/2023-06/IMG_0001.jpg'',
       recHash = ''sha256 of /src/IMG_0001.jpg'', recSize = 1000, recMtime = 1686787200\<rparr>]"
    by code_simp
  have i0: "initDB oneEnv ''/dst/bozobackup.db'' = []"
    by code_simp
  note c2 = C2_record_iff_copy_succeeded [of oneEnv False 0 "''/dst''" ?p "''/src/IMG_0001.jpg''"
      Continue ?f "''/src''" "''/dst/bozobackup.db''"]
  from c2 step d0 d1
  have ev: "\<exists>evs. trace ?f = trace ?p @ evs \<and>
          insertCalls evs = [recordOf oneEnv ''/dst'' ''/src/IMG_0001.jpg''] \<and>
          CopyOk \<in> set (copyReports oneEnv evs)"
    by auto
  from c2 d1 i0 have "map (\<lambda>r. (recSrc r, recDst r)) (db ?f) = copiedFiles ?f"
    by simp
  with d1 have cf: "copiedFiles ?f = [(''/src/IMG_0001.jpg'', ''/dst/2023-06/IMG_0001.jpg'')]"
    by simp
  from step ok d0 d1 cf ev show ?thesis by blast
qed

subsection \<open>C3: the hash is computed last and at most once\<close>

text \<open>
  Claim C3. For every candidate in every run, the content hash is computed at most once,
  and only for candidates that have passed, in this order, the extension filter, the
  incremental modification-time filter, the date resolution and the destination-exists
  check; the planning pass never hashes. In four parts: the trace of the first loop has
  no call of \<open>getFileHash\<close>; over a whole run, however it ends, the files hashed are,
  in scan order, a subsequence of the scanned files that are eligible at the start of
  the run, one hash at most for each position of the scan; hence no file is hashed twice
  when the scanner lists no path twice; and an iteration of the second loop that hashes,
  from any state, hashes its own candidate once, the candidate is eligible in that
  state, and the calls of the iteration start with \<open>os.Stat\<close> on the file,
  \<open>getFileDate\<close>, \<open>os.MkdirAll\<close>, \<open>os.Stat\<close> on the destination, \<open>getFileStat\<close>
  and only then \<open>getFileHash\<close>.
\<close>

theorem C3_lazy_hashing:
  "hashCalls (trace (planned e srcDir destDir dbPath inc)) = [] \<and>
   subseq (hashCalls (trace (finalState (backup e srcDir destDir dbPath inc))))
     (filter (eligible e inc (minMtimeOf e (initDB e dbPath) inc) destDir (destFiles e))
        (fst (getAllFiles e srcDir))) \<and>
   (distinct (fst (getAllFiles e srcDir)) \<longrightarrow>
      distinct (hashCalls (trace (finalState (backup e srcDir destDir dbPath inc))))) \<and>
   (exec_step e inc m destDir st file = (c, st') \<longrightarrow>
      (\<exists>evs. trace st' = trace st @ evs \<and>
         (hashCalls evs = [] \<or>
          eligible e inc m destDir (dest st) file \<and> hashCalls evs = [file] \<and>
          (\<exists>rest. evs =
             [EvStat file, EvGetFileDate file,
              EvMkdirAll (destMonthDirOf destDir (getFileDate e file)),
              EvStat (destFileOf destDir (getFileDate e file) file),
              EvGetFileStat file, EvGetFileHash file] @ rest))))"
proof -
  let ?files = "fst (getAllFiles e srcDir)"
  let ?el = "eligible e inc (minMtimeOf e (initDB e dbPath) inc) destDir (destFiles e)"
  let ?final = "finalState (backup e srcDir destDir dbPath inc)"
  have plan: "hashCalls (trace (planned e srcDir destDir dbPath inc)) = []"
    by (simp add: planned_fields hashCalls_concat_checkEvents)
  from run_calls [of e srcDir destDir dbPath inc] obtain evs where
    tr: "trace ?final = trace (planned e srcDir destDir dbPath inc) @ evs" and
    sub: "subseq (hashCalls evs) (filesToCopy (planned e srcDir destDir dbPath inc))"
    by blast
  have run: "subseq (hashCalls (trace ?final)) (filter ?el ?files)"
    using tr sub plan by (simp add: hashCalls_append planned_fields)
  have once: "distinct ?files \<longrightarrow> distinct (hashCalls (trace ?final))"
  proof
    assume "distinct ?files"
    then have "distinct (filter ?el ?files)" by simp
    with run show "distinct (hashCalls (trace ?final))" by (rule subseq_distinct)
  qed
  have step: "exec_step e inc m destDir st file = (c, st') \<longrightarrow>
      (\<exists>evs. trace st' = trace st @ evs \<and>
         (hashCalls evs = [] \<or>
          eligible e inc m destDir (dest st) file \<and> hashCalls evs = [file] \<and>
          (\<exists>rest. evs =
             [EvStat file, EvGetFileDate file,
              EvMkdirAll (destMonthDirOf destDir (getFileDate e file)),
              EvStat (destFileOf destDir (getFileDate e file) file),
              EvGetFileStat file, EvGetFileHash file] @ rest)))"
    using exec_step_hash_shape by blast
  from plan run once step show ?thesis by blast
qed

theorem C3_witness:
  "fst (getAllFiles oneEnv ''/src'') = [''/src/IMG_0001.jpg''] \<and>
   distinct (fst (getAllFiles oneEnv ''/src'')) \<and>
   exec_step oneEnv False 0 ''/dst'' (planned oneEnv ''/src'' ''/dst'' ''/dst/bozobackup.db'' False)
     ''/src/IMG_0001.jpg'' =
     (Continue, finalState (backup oneEnv ''/src'' ''/dst'' ''/dst/bozobackup.db'' False)) \<and>
   hashCalls (trace (planned oneEnv ''/src'' ''/dst'' ''/dst/bozobackup.db'' False)) = [] \<and>
   hashCalls (trace (finalState (backup oneEnv ''/src'' ''/dst'' ''/dst/bozobackup.db'' False))) =
     [''/src/IMG_0001.jpg''] \<and>
   eligible oneEnv False 0 ''/dst'' (dest (planned oneEnv ''/src'' ''/dst'' ''/dst/bozobackup.db'' False))
     ''/src/IMG_0001.jpg'' \<and>
   (\<exists>rest. trace (finalState (backup oneEnv ''/src'' ''/dst'' ''/dst/bozobackup.db'' False)) =
      trace (planned oneEnv ''/src'' ''/dst'' ''/dst/bozobackup.db'' False) @
      [EvStat ''/src/IMG_0001.jpg'', EvGetFileDate ''/src/IMG_0001.jpg'',
       EvMkdirAll ''/dst/2023-06'', EvStat ''/dst/2023-06/IMG_0001.jpg'',
       EvGetFileStat ''/src/IMG_0001.jpg'', EvGetFileHash ''/src/IMG_0001.jpg''] @ rest)"
proof -
  let ?p = "planned oneEnv ''/src'' ''/dst'' ''/dst/bozobackup.db'' False"
  let ?f = "finalState (backup oneEnv ''/src'' ''/dst'' ''/dst/bozobackup.db'' False)"
  have files: "fst (getAllFiles oneEnv ''/src'') = [''/src/IMG_0001.jpg'']"
    by code_simp
  have step: "exec_step oneEnv False 0 ''/dst'' ?p ''/src/IMG_0001.jpg'' = (Continue, ?f)"
    by code_simp
  have h1: "hashCalls (trace ?f) = [''/src/IMG_0001.jpg'']"
    by code_simp
  have d1: "destMonthDirOf ''/dst'' (getFileDate oneEnv ''/src/IMG_0001.jpg'') = ''/dst/2023-06''"
    by code_simp
  have d2: "destFileOf ''/dst'' (getFileDate oneEnv ''/src/IMG_0001.jpg'') ''/src/IMG_0001.jpg'' =
      ''/dst/2023-06/IMG_0001.jpg''"
    by code_simp
  note c3 = C3_lazy_hashing [of oneEnv "''/src''" "''/dst''" "''/dst/bozobackup.db''" False
      0 ?p "''/src/IMG_0001.jpg''" Continue ?f]
  from c3 have h0: "hashCalls (trace ?p) = []" by blast
  from c3 step obtain evs where tr: "trace ?f = trace ?p @ evs" and
    shape: "hashCalls evs = [] \<or>
      eligible oneEnv False 0 ''/dst'' (dest ?p) ''/src/IMG_0001.jpg'' \<and>
      hashCalls evs = [''/src/IMG_0001.jpg''] \<and>
      (\<exists>rest. evs =
         [EvStat ''/src/IMG_0001.jpg'', EvGetFileDate ''/src/IMG_0001.jpg'',
          EvMkdirAll (destMonthDirOf ''/dst'' (getFileDate oneEnv ''/src/IMG_0001.jpg'')),
          EvStat (destFileOf ''/dst'' (getFileDate oneEnv ''/src/IMG_0001.jpg'') ''/src/IMG_0001.jpg''),
          EvGetFileStat ''/src/IMG_0001.jpg'', EvGetFileHash ''/src/IMG_0001.jpg''] @ rest)"
    by blast
  from tr h0 h1 have "hashCalls evs \<noteq> []" by (simp add: hashCalls_append)
  with shape tr d1 d2 have el: "eligible oneEnv False 0 ''/dst'' (dest ?p) ''/src/IMG_0001.jpg''"
    and ex: "\<exists>rest. trace ?f = trace ?p @
      [EvStat ''/src/IMG_0001.jpg'', EvGetFileDate ''/src/IMG_0001.jpg'',
       EvMkdirAll ''/dst/2023-06'', EvStat ''/dst/2023-06/IMG_0001.jpg'',
       EvGetFileStat ''/src/IMG_0001.jpg'', EvGetFileHash ''/src/IMG_0001.jpg''] @ rest"
    by auto
  from files have "distinct (fst (getAllFiles oneEnv ''/src''))" by simp
  with files step h0 h1 el ex show ?thesis by blast
qed

subsection \<open>C4: the capacity guard\<close>



subsection \<open>C5: a copy cut by cancellation\<close>

text \<open>
  Claim C5 says that when the cancellation comes while a candidate's copy is in flight,
  the orchestrator leaves at once and records nothing for that candidate: no error
  entry, no error count, no dedup record, no copied pair. The code records the error
  first and tests \<open>ctx.Err()\<close> afterwards: in the world \<open>cancelEnv\<close> the run ends
  with one counted error and one line in the error list, both for the candidate whose
  copy was cut.
\<close>

theorem C5_counterexample:
  "copyFileAtomic cancelEnv ''/src/IMG_0001.jpg'' ''/dst/2023-06/IMG_0001.jpg'' =
     CopyCancelled ''context canceled'' \<and>
   copyCalls (trace (finalState (backup cancelEnv ''/src'' ''/dst'' ''/dst/bozobackup.db'' False))) =
     [''/src/IMG_0001.jpg''] \<and>
   exitOf (backup cancelEnv ''/src'' ''/dst'' ''/dst/bozobackup.db'' False) = Some Broke \<and>
   errors (finalState (backup cancelEnv ''/src'' ''/dst'' ''/dst/bozobackup.db'' False)) = 1 \<and>
   errorList (finalState (backup cancelEnv ''/src'' ''/dst'' ''/dst/bozobackup.db'' False)) =
     [''/src/IMG_0001.jpg: copy error: context canceled'']"
  by code_simp

text \<open>
  Claim C5, amended. When \<open>copyFileAtomic\<close> returns an error for a candidate, the
  iteration appends the line "file: copy error: err" to the error list and counts one
  error, whether the context is cancelled or not; it inserts no dedup record, adds no
  copied pair and leaves the destination as it is. When the context is cancelled at that
  moment the loop is left by \<open>break\<close>, so that no later candidate is visited and the
  state does not depend on the candidates that follow; otherwise the loop continues.
  The exit from the loop is all that tells the cancellation from a copy failure.
\<close>

theorem C5_cancelled_copy:
  assumes "eligible e inc m destDir (dest st) file"
    and "getFileHash e file \<noteq> []"
    and "\<not> fileAlreadyProcessed (db st) (getFileHash e file)"
    and "copyFileAtomic e file (destFileOf destDir (getFileDate e file) file) = r"
    and "r = CopyCancelled err \<or> r = CopyFailed err"
    and "st' = st\<lparr>errors := errors st + 1,
                   errorList := errorList st @ [file @ '': copy error: '' @ err],
                   trace := trace st @ hashEvents e inc m destDir file @
                     [EvLookup (getFileHash e file),
                      EvCopy file (destFileOf destDir (getFileDate e file) file)]\<rparr>"
  shows "exec_step e inc m destDir st file =
           (if r = CopyCancelled err then Break else Continue, st') \<and>
         (r = CopyCancelled err \<and> \<not> ctxDone e i \<longrightarrow>
            exec_loop e inc m destDir i (file # rest) st = (Broke, st')) \<and>
         db st' = db st \<and> dest st' = dest st \<and> insertCalls (trace st') = insertCalls (trace st) \<and>
         copied st' = copied st \<and> copiedFiles st' = copiedFiles st \<and>
         duplicates st' = duplicates st \<and> duplicateFiles st' = duplicateFiles st \<and>
         skippedFiles st' = skippedFiles st"
proof -
  have step: "exec_step e inc m destDir st file =
      (if r = CopyCancelled err then Break else Continue, st')"
    using assms(4,5,6) exec_step_copy [OF assms(1,2,3)] by auto
  then have "r = CopyCancelled err \<and> \<not> ctxDone e i \<longrightarrow>
      exec_loop e inc m destDir i (file # rest) st = (Broke, st')"
    by simp
  moreover have "insertCalls (trace st') = insertCalls (trace st)"
    using assms(6) by (simp add: report_simps)
  ultimately show ?thesis using step assms(6) by simp
qed

theorem C5_witness:
  "eligible cancelEnv False 0 ''/dst''
     (dest (planned cancelEnv ''/src'' ''/dst'' ''/dst/bozobackup.db'' False)) ''/src/IMG_0001.jpg'' \<and>
   getFileHash cancelEnv ''/src/IMG_0001.jpg'' \<noteq> [] \<and>
   \<not> fileAlreadyProcessed (db (planned cancelEnv ''/src'' ''/dst'' ''/dst/bozobackup.db'' False))
       (getFileHash cancelEnv ''/src/IMG_0001.jpg'') \<and>
   copyFileAtomic cancelEnv ''/src/IMG_0001.jpg''
     (destFileOf ''/dst'' (getFileDate cancelEnv ''/src/IMG_0001.jpg'') ''/src/IMG_0001.jpg'') =
     CopyCancelled ''context canceled'' \<and>
   \<not> ctxDone cancelEnv 0 \<and>
   exec_loop cancelEnv False 0 ''/dst'' 0 [''/src/IMG_0001.jpg'', ''/src/IMG_0002.jpg'']
     (planned cancelEnv ''/src'' ''/dst'' ''/dst/bozobackup.db'' False) =
     (Broke, finalState (backup cancelEnv ''/src'' ''/dst'' ''/dst/bozobackup.db'' False)) \<and>
   errors (finalState (backup cancelEnv ''/src'' ''/dst'' ''/dst/bozobackup.db'' False)) = 1 \<and>
   db (finalState (backup cancelEnv ''/src'' ''/dst'' ''/dst/bozobackup.db'' False)) = [] \<and>
   copiedFiles (finalState (backup cancelEnv ''/src'' ''/dst'' ''/dst/bozobackup.db'' False)) = []"
proof -
  let ?p = "planned cancelEnv ''/src'' ''/dst'' ''/dst/bozobackup.db'' False"
  let ?f = "finalState (backup cancelEnv ''/src'' ''/dst'' ''/dst/bozobackup.db'' False)"
  have h1: "eligible cancelEnv False 0 ''/dst'' (dest ?p) ''/src/IMG_0001.jpg''" by code_simp
  have h2: "getFileHash cancelEnv ''/src/IMG_0001.jpg'' \<noteq> []" by code_simp
  have h3: "\<not> fileAlreadyProcessed (db ?p) (getFileHash cancelEnv ''/src/IMG_0001.jpg'')"
    by code_simp
  have h4: "copyFileAtomic cancelEnv ''/src/IMG_0001.jpg''
      (destFileOf ''/dst'' (getFileDate cancelEnv ''/src/IMG_0001.jpg'') ''/src/IMG_0001.jpg'') =
      CopyCancelled ''context canceled''"
    by code_simp
  have h5: "\<not> ctxDone cancelEnv 0" by code_simp
  have f: "?f = ?p\<lparr>errors := errors ?p + 1,
      errorList := errorList ?p @ [''/src/IMG_0001.jpg'' @ '': copy error: '' @ ''context canceled''],
      trace := trace ?p @ hashEvents cancelEnv False 0 ''/dst'' ''/src/IMG_0001.jpg'' @
        [EvLookup (getFileHash cancelEnv ''/src/IMG_0001.jpg''),
         EvCopy ''/src/IMG_0001.jpg''
           (destFileOf ''/dst'' (getFileDate cancelEnv ''/src/IMG_0001.jpg'') ''/src/IMG_0001.jpg'')]\<rparr>"
    by code_simp
  have e1: "errors ?f = 1" by code_simp
  have e2: "db ?f = []" by code_simp
  have e3: "copiedFiles ?f = []" by code_simp
  from C5_cancelled_copy [OF h1 h2 h3 h4 disjI1 [OF refl] f,
      of 0 "[''/src/IMG_0002.jpg'']"] h5
  have "exec_loop cancelEnv False 0 ''/dst'' 0 [''/src/IMG_0001.jpg'', ''/src/IMG_0002.jpg''] ?p =
      (Broke, ?f)"
    by simp
  with h1 h2 h3 h4 h5 e1 e2 e3 show ?thesis by blast
qed

subsection \<open>C6: the result of an interrupted run\<close>

text \<open>
  Claim C6 says that when the cancellation is triggered after N of M candidates have
  been visited in the execution pass, the run result is still finalized and holds
  classifications for exactly the first N visited candidates, in scan order, and for
  no others. The skipped entries are made by the planning pass, for all M candidates:
  in the world \<open>interruptEnv\<close> the context is cancelled after the first of two
  candidates, and the result holds the skipped entry of the second one.
\<close>

theorem C6_counterexample:
  "fst (getAllFiles interruptEnv ''/src'') = [''/src/IMG_0001.jpg'', ''/src/notes.txt''] \<and>
   \<not> ctxDone interruptEnv 0 \<and> ctxDone interruptEnv 1 \<and>
   exitOf (backup interruptEnv ''/src'' ''/dst'' ''/dst/bozobackup.db'' False) = Some Interrupted \<and>
   copiedFiles (finalState (backup interruptEnv ''/src'' ''/dst'' ''/dst/bozobackup.db'' False)) =
     [(''/src/IMG_0001.jpg'', ''/dst/2023-06/IMG_0001.jpg'')] \<and>
   skippedFiles (finalState (backup interruptEnv ''/src'' ''/dst'' ''/dst/bozobackup.db'' False)) =
     [\<lparr>Path = ''/src/notes.txt'', Reason = ''filtered (extension)''\<rparr>]"
  by code_simp

text \<open>
  Claim C6, amended. When the context is seen cancelled at the head of the iteration
  that follows N visited candidates (N of M, none of their copies cut), the run is still
  finalized: it reaches the end of \<open>backup\<close>, where the report is written. Its copied
  pairs, duplicate pairs, error lines, counts and index are exactly those that the
  second loop produces on the first N candidates alone, in scan order, followed by the
  walk errors; its skipped entries are those of the planning pass over all M
  candidates, the unvisited ones included.
\<close>

theorem C6_interrupted_run:
  assumes "getAllFiles e srcDir = (files, walkErrors)"
    and "getFreeSpace e destDir = Inr free"
    and "\<not> free < totalCopiedSize (planned e srcDir destDir dbPath inc) +
           estimateDBSize e (length (filesToCopy (planned e srcDir destDir dbPath inc)))"
    and "N < length files"
    and "ctxDone e N"
    and "exec_loop e inc (minMtimeOf e (initDB e dbPath) inc) destDir 0 (take N files)
           (planned e srcDir destDir dbPath inc) = (Completed, st')"
  shows "backup e srcDir destDir dbPath inc = Finished Interrupted (cleanup walkErrors st') \<and>
         skippedFiles (cleanup walkErrors st') =
           skippedOf e inc (minMtimeOf e (initDB e dbPath) inc) destDir (destFiles e) files"
proof -
  let ?m = "minMtimeOf e (initDB e dbPath) inc"
  let ?p = "planned e srcDir destDir dbPath inc"
  from assms(5) have "ctxDone e (0 + N)" by simp
  with assms(6,4) have loop: "exec_loop e inc ?m destDir 0 files ?p = (Interrupted, st')"
    by (rule exec_loop_prefix)
  with assms(1,2,3) have run: "backup e srcDir destDir dbPath inc =
      Finished Interrupted (cleanup walkErrors st')"
    by (simp add: backup_def Let_def)
  from exec_loop_keeps [OF loop] assms(1)
  have "skippedFiles (cleanup walkErrors st') = skippedOf e inc ?m destDir (destFiles e) files"
    by (simp add: cleanup_fields planned_fields)
  with run show ?thesis by blast
qed

theorem C6_witness:
  "getAllFiles interruptEnv ''/src'' = ([''/src/IMG_0001.jpg'', ''/src/notes.txt''], []) \<and>
   getFreeSpace interruptEnv ''/dst'' = Inr 1000000 \<and>
   (1::nat) < length [''/src/IMG_0001.jpg'', ''/src/notes.txt''] \<and>
   ctxDone interruptEnv 1 \<and>
   exec_loop interruptEnv False 0 ''/dst'' 0 [''/src/IMG_0001.jpg'']
     (planned interruptEnv ''/src'' ''/dst'' ''/dst/bozobackup.db'' False) =
     (Completed, finalState (backup interruptEnv ''/src'' ''/dst'' ''/dst/bozobackup.db'' False)) \<and>
   backup interruptEnv ''/src'' ''/dst'' ''/dst/bozobackup.db'' False =
     Finished Interrupted
       (cleanup [] (finalState (backup interruptEnv ''/src'' ''/dst'' ''/dst/bozobackup.db'' False)))"
proof -
  let ?p = "planned interruptEnv ''/src'' ''/dst'' ''/dst/bozobackup.db'' False"
  let ?f = "finalState (backup interruptEnv ''/src'' ''/dst'' ''/dst/bozobackup.db'' False)"
  have h1: "getAllFiles interruptEnv ''/src'' = ([''/src/IMG_0001.jpg'', ''/src/notes.txt''], [])"
    by code_simp
  have h2: "getFreeSpace interruptEnv ''/dst'' = Inr 1000000" by code_simp
  have h3: "\<not> (1000000 :: uint64) < totalCopiedSize ?p +
      estimateDBSize interruptEnv (length (filesToCopy ?p))"
    by code_simp
  have h4: "(1::nat) < length [''/src/IMG_0001.jpg'', ''/src/notes.txt'']" by simp
  have h5: "ctxDone interruptEnv 1" by code_simp
  have m: "minMtimeOf interruptEnv (initDB interruptEnv ''/dst/bozobackup.db'') False = 0"
    by code_simp
  have l: "exec_loop interruptEnv False 0 ''/dst'' 0 [''/src/IMG_0001.jpg''] ?p = (Completed, ?f)"
    by code_simp
  then have h6: "exec_loop interruptEnv False
      (minMtimeOf interruptEnv (initDB interruptEnv ''/dst/bozobackup.db'') False) ''/dst'' 0
      (take 1 [''/src/IMG_0001.jpg'', ''/src/notes.txt'']) ?p = (Completed, ?f)"
    using m by simp
  from C6_interrupted_run [OF h1 h2 h3 h4 h5 h6]
  have "backup interruptEnv ''/src'' ''/dst'' ''/dst/bozobackup.db'' False =
      Finished Interrupted (cleanup [] ?f)"
    by blast
  with h1 h2 h4 h5 l show ?thesis by blast
qed

subsection \<open>C7: what the execution pass adds\<close>

text \<open>
  Claim C7 says that the execution pass adds copy, duplicate or error outcomes only for
  candidates that reached the destination-exists check in the planning pass, and never
  emits an entry, skip or error, for a candidate that the planning pass classified as
  skipped. A candidate whose \<open>os.Stat\<close> fails is recorded as skipped by the first
  loop, and the second loop appends a "stat error" line for it to the error list: in
  the world \<open>statErrEnv\<close> the one candidate has both.
\<close>

theorem C7_counterexample:
  "skippedFiles (planned statErrEnv ''/src'' ''/dst'' ''/dst/bozobackup.db'' False) =
     [\<lparr>Path = ''/src/IMG_0001.jpg'', Reason = ''stat error: permission denied''\<rparr>] \<and>
   errorList (planned statErrEnv ''/src'' ''/dst'' ''/dst/bozobackup.db'' False) = [] \<and>
   exitOf (backup statErrEnv ''/src'' ''/dst'' ''/dst/bozobackup.db'' False) = Some Completed \<and>
   skippedFiles (finalState (backup statErrEnv ''/src'' ''/dst'' ''/dst/bozobackup.db'' False)) =
     [\<lparr>Path = ''/src/IMG_0001.jpg'', Reason = ''stat error: permission denied''\<rparr>] \<and>
   errorList (finalState (backup statErrEnv ''/src'' ''/dst'' ''/dst/bozobackup.db'' False)) =
     [''/src/IMG_0001.jpg: stat error: permission denied'']"
  by code_simp

text \<open>
  Claim C7, amended. The execution pass adds no skipped entry. The sources of the copied
  pairs and of the duplicate pairs of a run are, in scan order, subsequences of the
  planned copy-set \<open>filesToCopy\<close>, and the copied, duplicate and counted error
  outcomes together are at most as many as the planned copy-set has files. For a
  candidate that the planning pass classified as skipped (not eligible for the
  destination \<open>D\<close> of that moment, which the later states of the run contain), an
  iteration of the second loop counts nothing and changes nothing but the trace and the
  error list, to which it appends \<open>statErrors\<close>: one "stat error" line when the
  candidate passes the extension filter and its \<open>os.Stat\<close> fails, nothing otherwise.
\<close>

theorem C7_execution_adds_for_planned_only:
  "skippedFiles (finalState (backup e srcDir destDir dbPath inc)) =
     skippedFiles (planned e srcDir destDir dbPath inc) \<and>
   subseq (map fst (copiedFiles (finalState (backup e srcDir destDir dbPath inc))))
     (filesToCopy (planned e srcDir destDir dbPath inc)) \<and>
   subseq (map fst (duplicateFiles (finalState (backup e srcDir destDir dbPath inc))))
     (filesToCopy (planned e srcDir destDir dbPath inc)) \<and>
   copied (finalState (backup e srcDir destDir dbPath inc)) +
     duplicates (finalState (backup e srcDir destDir dbPath inc)) +
     errors (finalState (backup e srcDir destDir dbPath inc)) \<le>
     length (filesToCopy (planned e srcDir destDir dbPath inc)) \<and>
   (D \<subseteq> dest st \<and> \<not> eligible e inc m destDir D f \<longrightarrow>
      exec_step e inc m destDir st f =
        (Continue, st\<lparr>errorList := errorList st @ statErrors e f,
                      trace := trace st @ checkEvents e inc m destDir f\<rparr>))"
proof -
  let ?f = "finalState (backup e srcDir destDir dbPath inc)"
  let ?p = "planned e srcDir destDir dbPath inc"
  from run_calls [of e srcDir destDir dbPath inc] obtain evs where
    "trace ?f = trace ?p @ evs" "subseq (hashCalls evs) (filesToCopy ?p)"
    by blast
  then have "subseq (hashCalls (trace ?f)) (filesToCopy ?p)"
    by (simp add: hashCalls_append planned_fields hashCalls_concat_checkEvents)
  then have "length (hashCalls (trace ?f)) \<le> length (filesToCopy ?p)"
    by (rule list_emb_length)
  with run_outcomes [of e srcDir destDir dbPath inc]
  have run: "skippedFiles ?f = skippedFiles ?p \<and>
      subseq (map fst (copiedFiles ?f)) (filesToCopy ?p) \<and>
      subseq (map fst (duplicateFiles ?f)) (filesToCopy ?p) \<and>
      copied ?f + duplicates ?f + errors ?f \<le> length (filesToCopy ?p)"
    by simp
  have "D \<subseteq> dest st \<and> \<not> eligible e inc m destDir D f \<longrightarrow>
      exec_step e inc m destDir st f =
        (Continue, st\<lparr>errorList := errorList st @ statErrors e f,
                      trace := trace st @ checkEvents e inc m destDir f\<rparr>)"
  proof
    assume a: "D \<subseteq> dest st \<and> \<not> eligible e inc m destDir D f"
    then have "\<not> eligible e inc m destDir (dest st) f"
      by (blast intro: eligible_antimono)
    then show "exec_step e inc m destDir st f =
        (Continue, st\<lparr>errorList := errorList st @ statErrors e f,
                      trace := trace st @ checkEvents e inc m destDir f\<rparr>)"
      by (rule exec_step_not_eligible)
  qed
  with run show ?thesis by simp
qed

theorem C7_witness:
  "destFiles statErrEnv \<subseteq> dest (planned statErrEnv ''/src'' ''/dst'' ''/dst/bozobackup.db'' False) \<and>
   \<not> eligible statErrEnv False 0 ''/dst'' (destFiles statErrEnv) ''/src/IMG_0001.jpg'' \<and>
   statErrors statErrEnv ''/src/IMG_0001.jpg'' =
     [''/src/IMG_0001.jpg: stat error: permission denied''] \<and>
   fst (exec_step statErrEnv False 0 ''/dst''
     (planned statErrEnv ''/src'' ''/dst'' ''/dst/bozobackup.db'' False) ''/src/IMG_0001.jpg'') =
     Continue \<and>
   errors (snd (exec_step statErrEnv False 0 ''/dst''
     (planned statErrEnv ''/src'' ''/dst'' ''/dst/bozobackup.db'' False) ''/src/IMG_0001.jpg'')) = 0 \<and>
   map fst (copiedFiles (finalState (backup oneEnv ''/src'' ''/dst'' ''/dst/bozobackup.db'' False))) =
     [''/src/IMG_0001.jpg''] \<and>
   filesToCopy (planned oneEnv ''/src'' ''/dst'' ''/dst/bozobackup.db'' False) =
     [''/src/IMG_0001.jpg'']"
proof -
  let ?p = "planned statErrEnv ''/src'' ''/dst'' ''/dst/bozobackup.db'' False"
  have h1: "destFiles statErrEnv \<subseteq> dest ?p" by code_simp
  have h2: "\<not> eligible statErrEnv False 0 ''/dst'' (destFiles statErrEnv) ''/src/IMG_0001.jpg''"
    by code_simp
  have s: "statErrors statErrEnv ''/src/IMG_0001.jpg'' =
      [''/src/IMG_0001.jpg: stat error: permission denied'']"
    by code_simp
  have e0: "errors ?p = 0" by code_simp
  have c: "map fst (copiedFiles (finalState (backup oneEnv ''/src'' ''/dst'' ''/dst/bozobackup.db'' False))) =
      [''/src/IMG_0001.jpg'']"
    by code_simp
  have t: "filesToCopy (planned oneEnv ''/src'' ''/dst'' ''/dst/bozobackup.db'' False) =
      [''/src/IMG_0001.jpg'']"
    by code_simp
  from C7_execution_adds_for_planned_only [where e = statErrEnv and D = "destFiles statErrEnv"
      and st = ?p and inc = False and m = 0 and destDir = "''/dst''"
      and f = "''/src/IMG_0001.jpg''"] h1 h2
  have step: "exec_step statErrEnv False 0 ''/dst'' ?p ''/src/IMG_0001.jpg'' =
      (Continue, ?p\<lparr>errorList := errorList ?p @ statErrors statErrEnv ''/src/IMG_0001.jpg'',
         trace := trace ?p @ checkEvents statErrEnv False 0 ''/dst'' ''/src/IMG_0001.jpg''\<rparr>)"
    by blast
  then have "fst (exec_step statErrEnv False 0 ''/dst'' ?p ''/src/IMG_0001.jpg'') = Continue"
    and "errors (snd (exec_step statErrEnv False 0 ''/dst'' ?p ''/src/IMG_0001.jpg'')) = 0"
    using e0 by simp_all
  with h1 h2 s c t show ?thesis by blast
qed

subsection \<open>C8: the planned total and the sizes attempted\<close>

text \<open>
  Claim C8 says that, absent a concurrent modification of the source tree, the copy-set
  total size of the planning pass equals the sum of the sizes of the files for which a
  copy is attempted in the execution pass. The planning pass does not consult the dedup
  index: in the world \<open>dupEnv\<close> the one candidate is planned with its 1000 bytes, the
  execution pass finds its hash in the index, and no copy is attempted.
\<close>

theorem C8_counterexample:
  "exitOf (backup dupEnv ''/src'' ''/dst'' ''/dst/bozobackup.db'' False) = Some Completed \<and>
   filesToCopy (finalState (backup dupEnv ''/src'' ''/dst'' ''/dst/bozobackup.db'' False)) =
     [''/src/IMG_0001.jpg''] \<and>
   totalCopiedSize (finalState (backup dupEnv ''/src'' ''/dst'' ''/dst/bozobackup.db'' False)) = 1000 \<and>
   copyCalls (trace (finalState (backup dupEnv ''/src'' ''/dst'' ''/dst/bozobackup.db'' False))) = [] \<and>
   sum_list (map (sizeOf dupEnv)
     (copyCalls (trace (finalState (backup dupEnv ''/src'' ''/dst'' ''/dst/bozobackup.db'' False))))) = 0"
  by code_simp

text \<open>
  Claim C8, amended. In the model the source tree does not change during a run. The
  files for which \<open>copyFileAtomic\<close> is called are, in scan order, a subsequence of
  the planned copy-set \<open>filesToCopy\<close>, which holds the scanned files that are
  eligible when the run starts; \<open>totalCopiedSize\<close> is the \<open>int64\<close> sum of the sizes
  of the planned copy-set. So the sizes attempted sum to at most the planned total
  (as numbers, when the sizes of the copy-set sum to less than \<open>2^64\<close>), and to
  exactly the planned total when a copy is attempted for every planned file. A planned
  file that is a duplicate, that cannot be hashed, whose destination was taken by an
  earlier copy of the run or that comes after a cancellation is in the total and is
  not attempted.
\<close>

theorem C8_planned_total_bounds_attempted:
  "subseq (copyCalls (trace (finalState (backup e srcDir destDir dbPath inc))))
     (filesToCopy (finalState (backup e srcDir destDir dbPath inc))) \<and>
   filesToCopy (finalState (backup e srcDir destDir dbPath inc)) =
     filter (eligible e inc (minMtimeOf e (initDB e dbPath) inc) destDir (destFiles e))
       (fst (getAllFiles e srcDir)) \<and>
   totalCopiedSize (finalState (backup e srcDir destDir dbPath inc)) =
     sum_list (map (sizeOf e) (filesToCopy (finalState (backup e srcDir destDir dbPath inc)))) \<and>
   (sum_list (map unat (map (sizeOf e)
       (filesToCopy (finalState (backup e srcDir destDir dbPath inc))))) < 2 ^ 64 \<longrightarrow>
    sum_list (map unat (map (sizeOf e)
       (copyCalls (trace (finalState (backup e srcDir destDir dbPath inc)))))) \<le>
    unat (totalCopiedSize (finalState (backup e srcDir destDir dbPath inc)))) \<and>
   (copyCalls (trace (finalState (backup e srcDir destDir dbPath inc))) =
      filesToCopy (finalState (backup e srcDir destDir dbPath inc)) \<longrightarrow>
    totalCopiedSize (finalState (backup e srcDir destDir dbPath inc)) =
      sum_list (map (sizeOf e)
        (copyCalls (trace (finalState (backup e srcDir destDir dbPath inc))))))"
proof -
  let ?f = "finalState (backup e srcDir destDir dbPath inc)"
  let ?p = "planned e srcDir destDir dbPath inc"
  note out = run_outcomes [of e srcDir destDir dbPath inc]
  from out have ftc: "filesToCopy ?f = filesToCopy ?p" and tot: "totalCopiedSize ?f = totalCopiedSize ?p"
    by simp_all
  from run_calls [of e srcDir destDir dbPath inc] obtain evs where
    "trace ?f = trace ?p @ evs" "subseq (copyCalls evs) (filesToCopy ?p)"
    by blast
  then have sub: "subseq (copyCalls (trace ?f)) (filesToCopy ?f)"
    by (simp add: ftc copyCalls_append planned_fields copyCalls_concat_checkEvents)
  have el: "filesToCopy ?f =
      filter (eligible e inc (minMtimeOf e (initDB e dbPath) inc) destDir (destFiles e))
        (fst (getAllFiles e srcDir))"
    by (simp add: ftc planned_fields)
  have total: "totalCopiedSize ?f = sum_list (map (sizeOf e) (filesToCopy ?f))"
    unfolding ftc tot by (rule planned_fields)
  have bound: "sum_list (map unat (map (sizeOf e) (filesToCopy ?f))) < 2 ^ 64 \<longrightarrow>
      sum_list (map unat (map (sizeOf e) (copyCalls (trace ?f)))) \<le> unat (totalCopiedSize ?f)"
  proof
    assume "sum_list (map unat (map (sizeOf e) (filesToCopy ?f))) < 2 ^ 64"
    then have "sum_list (map unat (map (sizeOf e) (filesToCopy ?f))) + 0 < 2 ^ 64" by simp
    then have "unat (sum_list (map (sizeOf e) (filesToCopy ?f))) =
        sum_list (map unat (map (sizeOf e) (filesToCopy ?f)))"
      by (rule unat_sum_list_exact)
    moreover from sub
    have "sum_list (map (\<lambda>x. unat (sizeOf e x)) (copyCalls (trace ?f))) \<le>
        sum_list (map (\<lambda>x. unat (sizeOf e x)) (filesToCopy ?f))"
      by (rule subseq_sum_list_le)
    ultimately show "sum_list (map unat (map (sizeOf e) (copyCalls (trace ?f)))) \<le>
        unat (totalCopiedSize ?f)"
      using total by (simp add: comp_def)
  qed
  have eq: "copyCalls (trace ?f) = filesToCopy ?f \<longrightarrow>
      totalCopiedSize ?f = sum_list (map (sizeOf e) (copyCalls (trace ?f)))"
    using total by simp
  from sub el total bound eq show ?thesis by blast
qed

theorem C8_witness:
  "copyCalls (trace (finalState (backup collideEnv ''/src'' ''/dst'' ''/dst/bozobackup.db'' False))) =
     [''/src/a/IMG_0001.jpg''] \<and>
   filesToCopy (finalState (backup collideEnv ''/src'' ''/dst'' ''/dst/bozobackup.db'' False)) =
     [''/src/a/IMG_0001.jpg'', ''/src/b/IMG_0001.jpg''] \<and>
   sum_list (map unat (map (sizeOf collideEnv)
     (filesToCopy (finalState (backup collideEnv ''/src'' ''/dst'' ''/dst/bozobackup.db'' False))))) =
     2000 \<and>
   (2000 :: nat) < 2 ^ 64 \<and>
   sum_list (map unat (map (sizeOf collideEnv)
     (copyCalls (trace (finalState (backup collideEnv ''/src'' ''/dst'' ''/dst/bozobackup.db'' False)))))) =
     1000 \<and>
   unat (totalCopiedSize (finalState (backup collideEnv ''/src'' ''/dst'' ''/dst/bozobackup.db'' False))) =
     2000 \<and>
   sum_list (map unat (map (sizeOf collideEnv)
     (copyCalls (trace (finalState (backup collideEnv ''/src'' ''/dst'' ''/dst/bozobackup.db'' False)))))) \<le>
   unat (totalCopiedSize (finalState (backup collideEnv ''/src'' ''/dst'' ''/dst/bozobackup.db'' False))) \<and>
   copyCalls (trace (finalState (backup oneEnv ''/src'' ''/dst'' ''/dst/bozobackup.db'' False))) =
     filesToCopy (finalState (backup oneEnv ''/src'' ''/dst'' ''/dst/bozobackup.db'' False)) \<and>
   totalCopiedSize (finalState (backup oneEnv ''/src'' ''/dst'' ''/dst/bozobackup.db'' False)) =
     sum_list (map (sizeOf oneEnv)
       (copyCalls (trace (finalState (backup oneEnv ''/src'' ''/dst'' ''/dst/bozobackup.db'' False)))))"
proof -
  let ?f = "finalState (backup collideEnv ''/src'' ''/dst'' ''/dst/bozobackup.db'' False)"
  let ?g = "finalState (backup oneEnv ''/src'' ''/dst'' ''/dst/bozobackup.db'' False)"
  have c: "copyCalls (trace ?f) = [''/src/a/IMG_0001.jpg'']" by code_simp
  have p: "filesToCopy ?f = [''/src/a/IMG_0001.jpg'', ''/src/b/IMG_0001.jpg'']" by code_simp
  have s: "sum_list (map unat (map (sizeOf collideEnv) (filesToCopy ?f))) = 2000" by code_simp
  have a: "sum_list (map unat (map (sizeOf collideEnv) (copyCalls (trace ?f)))) = 1000" by code_simp
  have t: "unat (totalCopiedSize ?f) = 2000" by code_simp
  have o: "copyCalls (trace ?g) = filesToCopy ?g" by code_simp
  have lt: "(2000 :: nat) < 2 ^ 64" by simp
  with s have hyp: "sum_list (map unat (map (sizeOf collideEnv) (filesToCopy ?f))) < 2 ^ 64"
    by simp
  from C8_planned_total_bounds_attempted [of collideEnv "''/src''" "''/dst''"
      "''/dst/bozobackup.db''" False] hyp
  have le: "sum_list (map unat (map (sizeOf collideEnv) (copyCalls (trace ?f)))) \<le>
      unat (totalCopiedSize ?f)"
    by blast
  from C8_planned_total_bounds_attempted [of oneEnv "''/src''" "''/dst''"
      "''/dst/bozobackup.db''" False] o
  have eq: "totalCopiedSize ?g = sum_list (map (sizeOf oneEnv) (copyCalls (trace ?g)))"
    by blast
  from c p s lt a t le o eq show ?thesis by blast
qed

subsection \<open>C9: the boundary of the incremental filter\<close>

text \<open>
  Claim C9 says that in an incremental run with a recorded prior-run timestamp, a
  candidate whose modification time equals that timestamp is skipped as too old and is
  not copied. \<open>backup\<close> keeps the timestamp in \<open>minMtime\<close> when \<open>getLastBackupTime\<close>
  returns no error and a time that is not the zero time, and it makes the incremental
  test only when \<open>minMtime > 0\<close>: \<open>minMtime = 0\<close> stands for no timestamp. A recorded
  timestamp at the Unix epoch, or before it, switches the test off. In the world
  \<open>epochEnv\<close> the run is incremental, the recorded timestamp is the epoch, the one
  candidate has exactly that modification time, and it is not skipped: it is copied.
\<close>

theorem C9_counterexample:
  "getLastBackupTime epochEnv (initDB epochEnv ''/dst/bozobackup.db'') = Inr epochTime \<and>
   \<not> IsZero epochTime \<and>
   osStat epochEnv ''/src/IMG_0001.jpg'' = Inr \<lparr>Size = 1000, ModTime = epochTime\<rparr> \<and>
   Unix (ModTime \<lparr>Size = 1000, ModTime = epochTime\<rparr>) = Unix epochTime \<and>
   minMtimeOf epochEnv (initDB epochEnv ''/dst/bozobackup.db'') True = 0 \<and>
   exitOf (backup epochEnv ''/src'' ''/dst'' ''/dst/bozobackup.db'' True) = Some Completed \<and>
   skippedFiles (finalState (backup epochEnv ''/src'' ''/dst'' ''/dst/bozobackup.db'' True)) = [] \<and>
   copiedFiles (finalState (backup epochEnv ''/src'' ''/dst'' ''/dst/bozobackup.db'' True)) =
     [(''/src/IMG_0001.jpg'', ''/dst/2023-06/IMG_0001.jpg'')]"
  by code_simp

text \<open>
  Claim C9, amended. In an incremental run with a recorded prior-run timestamp that lies
  after the Unix epoch (\<open>getLastBackupTime\<close> returns no error and a time that is not
  the zero time and has positive Unix seconds), a candidate whose modification time
  equals that timestamp is skipped as too old and is not copied; only a strictly greater
  modification time passes the incremental test. The candidate has passed the extension
  filter and \<open>os.Stat\<close>, the two tests before the incremental one. Then the first loop
  records it as skipped with the reason "old (not newer than last backup)", and the
  second loop leaves its iteration after \<open>os.Stat\<close>, with no hash, no copy and no entry.
\<close>

theorem C9_equal_mtime_is_too_old:
  assumes "getLastBackupTime e (initDB e dbPath) = Inr lastBackupTime"
    and "\<not> IsZero lastBackupTime"
    and "0 < sint (Unix lastBackupTime)"
    and "allowedExtensions e (strings_ToLower (filepath_Ext file))"
    and "osStat e file = Inr info"
    and "Unix (ModTime info) = Unix lastBackupTime"
    and "minMtime = minMtimeOf e (initDB e dbPath) True"
  shows "plan_step e True minMtime destDir st file =
           skip file ''old (not newer than last backup)'' (emit [EvStat file] st) \<and>
         exec_step e True minMtime destDir st' file = (Continue, emit [EvStat file] st') \<and>
         (\<forall>info'. tooOld True minMtime info' \<longleftrightarrow>
            \<not> sint minMtime < sint (Unix (ModTime info')))"
proof -
  have m: "minMtime = Unix lastBackupTime"
    using assms(1,2,7) by (simp add: minMtimeOf_recorded)
  have old: "tooOld True minMtime info"
    using assms(3,6) m by (simp add: tooOld_def)
  have "plan_step e True minMtime destDir st file =
          skip file ''old (not newer than last backup)'' (emit [EvStat file] st)"
    using assms(4,5) old by (simp add: plan_step_def)
  moreover have "exec_step e True minMtime destDir st' file = (Continue, emit [EvStat file] st')"
    using assms(4,5) old by (simp add: exec_step_old allowed_def)
  moreover have "\<forall>info'. tooOld True minMtime info' \<longleftrightarrow>
      \<not> sint minMtime < sint (Unix (ModTime info'))"
    using assms(3) m by (auto simp: tooOld_def)
  ultimately show ?thesis by blast
qed

theorem C9_witness:
  "getLastBackupTime sameSecondEnv (initDB sameSecondEnv ''/dst/bozobackup.db'') = Inr june15 \<and>
   \<not> IsZero june15 \<and> 0 < sint (Unix june15) \<and>
   allowedExtensions sameSecondEnv (strings_ToLower (filepath_Ext ''/src/IMG_0001.jpg'')) \<and>
   osStat sameSecondEnv ''/src/IMG_0001.jpg'' = Inr \<lparr>Size = 1000, ModTime = june15\<rparr> \<and>
   Unix (ModTime \<lparr>Size = 1000, ModTime = june15\<rparr>) = Unix june15 \<and>
   skippedFiles (plan_step sameSecondEnv True
       (minMtimeOf sameSecondEnv (initDB sameSecondEnv ''/dst/bozobackup.db'') True) ''/dst''
       (init_state sameSecondEnv ''/dst/bozobackup.db'') ''/src/IMG_0001.jpg'') =
     [\<lparr>Path = ''/src/IMG_0001.jpg'', Reason = ''old (not newer than last backup)''\<rparr>] \<and>
   fst (exec_step sameSecondEnv True
       (minMtimeOf sameSecondEnv (initDB sameSecondEnv ''/dst/bozobackup.db'') True) ''/dst''
       (init_state sameSecondEnv ''/dst/bozobackup.db'') ''/src/IMG_0001.jpg'') = Continue \<and>
   copiedFiles (finalState (backup sameSecondEnv ''/src'' ''/dst'' ''/dst/bozobackup.db'' True)) = []"
proof -
  have h1: "getLastBackupTime sameSecondEnv (initDB sameSecondEnv ''/dst/bozobackup.db'') = Inr june15"
    by (simp add: sameSecondEnv_def oneEnv_def baseEnv_def)
  have h2: "\<not> IsZero june15" by (simp add: june15_def)
  have h3: "0 < sint (Unix june15)" by (simp add: june15_def)
  have h4: "allowedExtensions sameSecondEnv (strings_ToLower (filepath_Ext ''/src/IMG_0001.jpg''))"
    by code_simp
  have h5: "osStat sameSecondEnv ''/src/IMG_0001.jpg'' = Inr \<lparr>Size = 1000, ModTime = june15\<rparr>"
    by (simp add: sameSecondEnv_def oneEnv_def baseEnv_def)
  have h6: "Unix (ModTime \<lparr>Size = 1000, ModTime = june15\<rparr>) = Unix june15" by simp
  have run: "copiedFiles (finalState (backup sameSecondEnv ''/src'' ''/dst'' ''/dst/bozobackup.db'' True)) = []"
    by code_simp
  note c9 = C9_equal_mtime_is_too_old [OF h1 h2 h3 h4 h5 h6 refl,
      of "''/dst''" "init_state sameSecondEnv ''/dst/bozobackup.db''"
         "init_state sameSecondEnv ''/dst/bozobackup.db''"]
  from c9 have "skippedFiles (plan_step sameSecondEnv True
       (minMtimeOf sameSecondEnv (initDB sameSecondEnv ''/dst/bozobackup.db'') True) ''/dst''
       (init_state sameSecondEnv ''/dst/bozobackup.db'') ''/src/IMG_0001.jpg'') =
     [\<lparr>Path = ''/src/IMG_0001.jpg'', Reason = ''old (not newer than last backup)''\<rparr>]"
    by (simp add: skip_def emit_def init_state_def)
  moreover from c9 have "fst (exec_step sameSecondEnv True
       (minMtimeOf sameSecondEnv (initDB sameSecondEnv ''/dst/bozobackup.db'') True) ''/dst''
       (init_state sameSecondEnv ''/dst/bozobackup.db'') ''/src/IMG_0001.jpg'') = Continue"
    by simp
  ultimately show ?thesis using h1 h2 h3 h4 h5 h6 run by blast
qed

subsection \<open>C10: the destination recorded for a duplicate\<close>

text \<open>
  Claim C10. For every candidate classified Duplicate, the destination path of its
  pair in \<open>duplicateFiles\<close> is the candidate's own month-bucket destination, a path
  that the exists-check has just found absent, and not the destination at which a
  previously copied file resides. One iteration of the second loop, from any state, that
  adds to \<open>duplicateFiles\<close>: it adds the one pair of the candidate and of its own
  computed destination; nothing exists at that path; the hash is in the index; the path
  differs from the recorded destination of every record of the index whose file exists;
  the index and the destination stay as they are.
\<close>

theorem C10_duplicate_pair_destination:
  assumes "exec_step e inc m destDir st file = (c, st')"
    and "duplicateFiles st' \<noteq> duplicateFiles st"
  shows "duplicateFiles st' =
           duplicateFiles st @ [(file, destFileOf destDir (getFileDate e file) file)] \<and>
         destFileOf destDir (getFileDate e file) file \<notin> dest st \<and>
         fileAlreadyProcessed (db st) (getFileHash e file) \<and>
         (\<forall>r \<in> set (db st). recDst r \<in> dest st \<longrightarrow>
            recDst r \<noteq> destFileOf destDir (getFileDate e file) file) \<and>
         db st' = db st \<and> dest st' = dest st"
  using assms
proof (cases rule: exec_step_cases [of e inc m destDir st "file"])
  case dup
  from dup(1) have "destFileOf destDir (getFileDate e file) file \<notin> dest st"
    by (rule eligibleD)
  with dup assms show ?thesis by auto
qed auto

theorem C10_witness:
  "exec_step dupEnv False 0 ''/dst'' (planned dupEnv ''/src'' ''/dst'' ''/dst/bozobackup.db'' False)
     ''/src/IMG_0001.jpg'' =
     (Continue, finalState (backup dupEnv ''/src'' ''/dst'' ''/dst/bozobackup.db'' False)) \<and>
   duplicateFiles (planned dupEnv ''/src'' ''/dst'' ''/dst/bozobackup.db'' False) = [] \<and>
   duplicateFiles (finalState (backup dupEnv ''/src'' ''/dst'' ''/dst/bozobackup.db'' False)) =
     [(''/src/IMG_0001.jpg'', ''/dst/2023-06/IMG_0001.jpg'')] \<and>
   destFileOf ''/dst'' (getFileDate dupEnv ''/src/IMG_0001.jpg'') ''/src/IMG_0001.jpg'' =
     ''/dst/2023-06/IMG_0001.jpg'' \<and>
   map recDst (db (planned dupEnv ''/src'' ''/dst'' ''/dst/bozobackup.db'' False)) =
     [''/dst/2022-01/IMG_0001.jpg''] \<and>
   dest (planned dupEnv ''/src'' ''/dst'' ''/dst/bozobackup.db'' False) =
     {''/dst/2022-01/IMG_0001.jpg''} \<and>
   ''/dst/2023-06/IMG_0001.jpg'' \<notin> dest (planned dupEnv ''/src'' ''/dst'' ''/dst/bozobackup.db'' False)"
proof -
  have step: "exec_step dupEnv False 0 ''/dst''
      (planned dupEnv ''/src'' ''/dst'' ''/dst/bozobackup.db'' False) ''/src/IMG_0001.jpg'' =
      (Continue, finalState (backup dupEnv ''/src'' ''/dst'' ''/dst/bozobackup.db'' False))"
    by code_simp
  have d0: "duplicateFiles (planned dupEnv ''/src'' ''/dst'' ''/dst/bozobackup.db'' False) = []"
    by code_simp
  have d1: "duplicateFiles (finalState (backup dupEnv ''/src'' ''/dst'' ''/dst/bozobackup.db'' False)) =
     [(''/src/IMG_0001.jpg'', ''/dst/2023-06/IMG_0001.jpg'')]"
    by code_simp
  have ne: "duplicateFiles (finalState (backup dupEnv ''/src'' ''/dst'' ''/dst/bozobackup.db'' False)) \<noteq>
     duplicateFiles (planned dupEnv ''/src'' ''/dst'' ''/dst/bozobackup.db'' False)"
    using d0 d1 by simp
  have p: "destFileOf ''/dst'' (getFileDate dupEnv ''/src/IMG_0001.jpg'') ''/src/IMG_0001.jpg'' =
     ''/dst/2023-06/IMG_0001.jpg''"
    by code_simp
  have r: "map recDst (db (planned dupEnv ''/src'' ''/dst'' ''/dst/bozobackup.db'' False)) =
     [''/dst/2022-01/IMG_0001.jpg'']"
    by code_simp
  have d: "dest (planned dupEnv ''/src'' ''/dst'' ''/dst/bozobackup.db'' False) =
     {''/dst/2022-01/IMG_0001.jpg''}"
    by code_simp
  from C10_duplicate_pair_destination [OF step ne] p
  have "''/dst/2023-06/IMG_0001.jpg'' \<notin> dest (planned dupEnv ''/src'' ''/dst'' ''/dst/bozobackup.db'' False)"
    by simp
  with step d0 d1 p r d show ?thesis by blast
qed

end
